theory Spec2Isabelle
  imports Main "HOL-Library.Word"
begin

section \<open>The multistream character device driver\<close>

text \<open>
  A shallow embedding of \<^verbatim>\<open>src/driver/multistream-driver.c\<close> and
  \<^verbatim>\<open>src/driver/structs/structs.h\<close>. Every driver entry point
  (\<^verbatim>\<open>dev_open\<close>, \<^verbatim>\<open>dev_release\<close>, \<^verbatim>\<open>dev_write\<close>,
  \<^verbatim>\<open>dev_read\<close>, \<^verbatim>\<open>dev_ioctl\<close>) and the work-queue function
  \<^verbatim>\<open>do_wq_write\<close> is a function on the module's global state.

  Conventions of the embedding.
  \<^item> The C \<^verbatim>\<open>int\<close> and \<^verbatim>\<open>long\<close> values are HOL integers; a
    \<^verbatim>\<open>size_t\<close> is a natural number. Where the C code compares or assigns an
    \<^verbatim>\<open>int\<close> to a \<^verbatim>\<open>size_t\<close> the conversion modulo \<open>2 ^ 64\<close> is written
    out (\<open>size_t_of\<close>). The \<^verbatim>\<open>unsigned long\<close> module parameters are 64-bit words.
  \<^item> The linked list hanging off the sentinel \<^verbatim>\<open>list_heads[j]\<close> is the list of its
    nodes, head first; \<^verbatim>\<open>list_heads[j]->next == NULL\<close> is the empty list. A walk over
    the list is a recursion with the nodes already passed (\<open>pre\<close>) and the nodes from
    the cursor on; a cursor that is \<^verbatim>\<open>NULL\<close> is the empty remainder.
  \<^item> A page (\<^verbatim>\<open>stream_content\<close>) is represented by the bytes that have been
    copied into it, so a fresh page is the empty list.
  \<^item> A call that does not return to its caller (a \<^verbatim>\<open>NULL\<close> dereference, an index
    outside an array of the driver, a loop that never ends) has the value \<open>None\<close>.
  \<^item> Whatever the driver obtains from the rest of the kernel during one call
    (allocations, the outcome of a sleep) is an argument of the call, the record \<open>env\<close>.
    The embedding is sequential: other threads do not change the device while the
    calling thread sleeps.
\<close>

subsection \<open>Constants\<close>

abbreviation (input) MINORS :: nat where "MINORS \<equiv> 128"
abbreviation (input) OBJECT_MAX_SIZE :: int where "OBJECT_MAX_SIZE \<equiv> 4096"
abbreviation (input) MAX_PAGES :: int where "MAX_PAGES \<equiv> 5"

abbreviation (input) EINTR :: int where "EINTR \<equiv> 4"
abbreviation (input) ENOMEM :: int where "ENOMEM \<equiv> 12"
abbreviation (input) ENODEV :: int where "ENODEV \<equiv> 19"
abbreviation (input) ENOSPC :: int where "ENOSPC \<equiv> 28"
abbreviation (input) ERESTARTSYS :: int where "ERESTARTSYS \<equiv> 512"

text \<open>\<^verbatim>\<open>enum ctl_ops{SET_PRIO=1, SET_BLOCKING=3, SET_OPENCLOSE=4}\<close>\<close>

abbreviation (input) SET_PRIO :: nat where "SET_PRIO \<equiv> 1"
abbreviation (input) SET_BLOCKING :: nat where "SET_BLOCKING \<equiv> 3"
abbreviation (input) SET_OPENCLOSE :: nat where "SET_OPENCLOSE \<equiv> 4"

datatype wait_ops = WAIT_MUTEX | WAIT_WRITE | WAIT_READ

type_synonym byte = "8 word"
type_synonym ulong = "64 word"

subsection \<open>Data (structs.h and the globals of the driver)\<close>

record object_content =
  record_length :: int
  read_offset :: int
  stream_content :: "byte list"

record io_sess_info =
  priority :: int
  timeout :: int

text \<open>
  \<^verbatim>\<open>object_state\<close>: the arrays of size \<^verbatim>\<open>NR_FLOWS\<close> are functions of the flow
  index (0 low, 1 high). A mutex is \<open>True\<close> while it is held. The wait queue
  \<^verbatim>\<open>the_wq_head[j]\<close> has no thread of its own in a sequential embedding: the calls
  made on it are recorded in \<open>sync_trace\<close> below.
\<close>

record object_state =
  operation_synchronizer :: "int \<Rightarrow> bool"
  valid_bytes :: "int \<Rightarrow> int"
  total_free_bytes :: "int \<Rightarrow> int"
  list_heads :: "int \<Rightarrow> object_content list"

text \<open>\<^verbatim>\<open>packed_data_wq\<close>, the job handed to the work queue.\<close>

record packed_data_wq =
  wq_data :: "byte list"
  wq_minor :: nat
  wq_len :: nat

datatype sync_event =
  Mutex_lock nat int
| Mutex_unlock nat int
| Wake_up nat int
| Sleep nat int wait_ops

text \<open>
  The module's globals: \<^verbatim>\<open>objects\<close>, the five module parameter arrays, the
  kernel work queue of CPU 0 (jobs scheduled and not yet run, oldest first), and the
  history of the calls made on mutexes and wait queues.
\<close>

record driver =
  objects :: "nat \<Rightarrow> object_state"
  enable_disable_array :: "nat \<Rightarrow> ulong"
  high_data_count :: "nat \<Rightarrow> ulong"
  low_data_count :: "nat \<Rightarrow> ulong"
  high_wait_data :: "nat \<Rightarrow> ulong"
  low_wait_data :: "nat \<Rightarrow> ulong"
  system_wq :: "packed_data_wq list"
  sync_trace :: "sync_event list"

text \<open>
  How a sleep on a wait queue ends: a signal arrived, the timeout ran out with the
  condition still false, or the condition became true with some jiffies left.
\<close>

datatype wait_result = Signalled | Expired | Satisfied nat

text \<open>
  What the kernel answers during one call. \<open>page_alloc k\<close> tells whether the
  \<open>k\<close>-th attempt of the call to allocate a list node together with its page succeeds
  (\<^verbatim>\<open>kzalloc\<close> followed by \<^verbatim>\<open>__get_free_page\<close>: the driver treats the failure
  of either in the same way).
\<close>

record env =
  lock_wait :: wait_result
  data_wait :: wait_result
  relock_wait :: wait_result
  kmalloc_ok :: bool
  module_get_ok :: bool
  wq_alloc_ok :: bool
  wq_data_alloc_ok :: bool
  page_alloc :: "nat \<Rightarrow> bool"

subsection \<open>Kernel primitives\<close>

definition size_t_of :: "int \<Rightarrow> nat" where
  "size_t_of i = nat (i mod 2 ^ 64)"

definition ulong_of :: "int \<Rightarrow> ulong" where
  "ulong_of i = word_of_int i"

text \<open>\<^verbatim>\<open>kmalloc\<close> of size 0 returns the non-null \<^verbatim>\<open>ZERO_SIZE_PTR\<close>.\<close>

definition kmalloc :: "bool \<Rightarrow> nat \<Rightarrow> bool" where
  "kmalloc ok n = (n = 0 \<or> ok)"

text \<open>
  User memory: \<open>buff\<close> is the accessible memory at the user's pointer.
  \<^verbatim>\<open>copy_from_user\<close>, \<^verbatim>\<open>clear_user\<close> and \<^verbatim>\<open>copy_to_user\<close> return the
  number of bytes they could not process.
\<close>

definition copy_from_user :: "byte list \<Rightarrow> nat \<Rightarrow> nat \<times> byte list" where
  "copy_from_user buff n = (n - min n (length buff), take n buff)"

definition clear_user :: "byte list \<Rightarrow> nat \<Rightarrow> nat \<times> byte list" where
  "clear_user buff n =
     (let k = min n (length buff) in (n - k, replicate k 0 @ drop k buff))"

definition copy_to_user :: "byte list \<Rightarrow> byte list \<Rightarrow> nat \<Rightarrow> nat \<times> byte list" where
  "copy_to_user buff src n =
     (let k = min n (length buff) in (n - k, take k src @ drop (length (take k src)) buff))"

definition memcpy :: "byte list \<Rightarrow> nat \<Rightarrow> byte list \<Rightarrow> byte list" where
  "memcpy dst off src = take off dst @ src @ drop (off + length src) dst"

definition upd_object :: "nat \<Rightarrow> (object_state \<Rightarrow> object_state) \<Rightarrow> driver \<Rightarrow> driver" where
  "upd_object m f d = d\<lparr>objects := (objects d)(m := f (objects d m))\<rparr>"

definition log_event :: "sync_event \<Rightarrow> driver \<Rightarrow> driver" where
  "log_event ev d = d\<lparr>sync_trace := sync_trace d @ [ev]\<rparr>"

definition set_mutex :: "nat \<Rightarrow> int \<Rightarrow> bool \<Rightarrow> driver \<Rightarrow> driver" where
  "set_mutex m p b d =
     upd_object m (\<lambda>ob. ob\<lparr>operation_synchronizer := (operation_synchronizer ob)(p := b)\<rparr>) d"

definition mutex_trylock :: "nat \<Rightarrow> int \<Rightarrow> driver \<Rightarrow> driver \<times> int" where
  "mutex_trylock m p d =
     (if operation_synchronizer (objects d m) p then (d, 0)
      else (log_event (Mutex_lock m p) (set_mutex m p True d), 1))"

definition mutex_unlock :: "nat \<Rightarrow> int \<Rightarrow> driver \<Rightarrow> driver" where
  "mutex_unlock m p d = log_event (Mutex_unlock m p) (set_mutex m p False d)"

definition wake_up_interruptible :: "nat \<Rightarrow> int \<Rightarrow> driver \<Rightarrow> driver" where
  "wake_up_interruptible m p d = log_event (Wake_up m p) d"

text \<open>
  The value of \<^verbatim>\<open>wait_event_interruptible_timeout_exclusive\<close>: \<^verbatim>\<open>-ERESTARTSYS\<close>
  after a signal, 0 when the timeout elapsed with the condition false, otherwise the
  remaining jiffies (at least 1).
\<close>

definition wait_event_interruptible_timeout_exclusive :: "wait_result \<Rightarrow> int" where
  "wait_event_interruptible_timeout_exclusive w =
     (case w of Signalled \<Rightarrow> - ERESTARTSYS | Expired \<Rightarrow> 0 | Satisfied k \<Rightarrow> 1 + int k)"

subsection \<open>Helper functions of the driver\<close>

text \<open>
  \<^verbatim>\<open>do_sleep_wqe\<close>. For \<^verbatim>\<open>WAIT_MUTEX\<close> the condition of the sleep is
  \<^verbatim>\<open>mutex_trylock(...) == value\<close>, so a sleep that ends with the condition true has
  taken the mutex. The remaining jiffies are taken to be less than \<open>2^31\<close>, so that
  the \<^verbatim>\<open>int res\<close> of line 615 holds the value of the macro.
\<close>

definition do_sleep_wqe ::
  "wait_result \<Rightarrow> int \<Rightarrow> nat \<Rightarrow> int \<Rightarrow> int \<Rightarrow> wait_ops \<Rightarrow> driver \<Rightarrow> driver \<times> int" where
  "do_sleep_wqe w op_timeout m p val event d =
     (let res = wait_event_interruptible_timeout_exclusive w;
          d1 = log_event (Sleep m p event) d;
          d2 = (if event = WAIT_MUTEX \<and> 0 < res
                then log_event (Mutex_lock m p) (set_mutex m p True d1) else d1)
      in if res = - ERESTARTSYS then (d2, - EINTR)
         else if res \<noteq> 0 then (d2, 1)
         else (d2, 0))"

definition try_get_lock :: "wait_result \<Rightarrow> io_sess_info \<Rightarrow> nat \<Rightarrow> driver \<Rightarrow> driver \<times> int" where
  "try_get_lock w sess_info m d =
     (case mutex_trylock m (priority sess_info) d of (d1, got) \<Rightarrow>
        if got \<noteq> 1 then
          (if timeout sess_info \<le> 0 then (d1, 0)
           else (case do_sleep_wqe w (timeout sess_info) m (priority sess_info) 1 WAIT_MUTEX d1 of
                   (d2, r) \<Rightarrow> if r \<noteq> 1 then (d2, 0) else (d2, 1)))
        else (d1, 1))"

definition add_wait_data :: "io_sess_info \<Rightarrow> nat \<Rightarrow> ulong \<Rightarrow> driver \<Rightarrow> driver" where
  "add_wait_data sess_info m x d =
     (if priority sess_info \<noteq> 0
      then d\<lparr>high_wait_data := (high_wait_data d)(m := high_wait_data d m + x)\<rparr>
      else d\<lparr>low_wait_data := (low_wait_data d)(m := low_wait_data d m + x)\<rparr>)"

definition try_wait_for_data ::
  "wait_result \<Rightarrow> io_sess_info \<Rightarrow> nat \<Rightarrow> int \<Rightarrow> wait_ops \<Rightarrow> driver \<Rightarrow> driver \<times> int" where
  "try_wait_for_data w sess_info m val event d =
     (case do_sleep_wqe w (timeout sess_info) m (priority sess_info) val event
             (add_wait_data sess_info m 1 d) of
        (d1, ret) \<Rightarrow> (add_wait_data sess_info m (- 1) d1, ret))"

subsection \<open>\<^verbatim>\<open>write_data\<close>\<close>

definition new_page :: object_content where
  "new_page = \<lparr>record_length = 0, read_offset = 0, stream_content = []\<rparr>"

text \<open>
  First walk: \<^verbatim>\<open>while(temp_object->record_length == OBJECT_MAX_SIZE &&
  temp_object->next != NULL)\<close>. The result is the nodes before \<^verbatim>\<open>temp_object\<close>,
  \<^verbatim>\<open>temp_object\<close>, and the nodes after it.
\<close>

fun find_write_page ::
  "object_content list \<Rightarrow> object_content \<Rightarrow> object_content list \<Rightarrow>
   object_content list \<times> object_content \<times> object_content list" where
  "find_write_page pre t [] = (pre, t, [])"
| "find_write_page pre t (n # ns) =
     (if record_length t = OBJECT_MAX_SIZE then find_write_page (pre @ [t]) n ns
      else (pre, t, n # ns))"

text \<open>
  The allocation loop \<^verbatim>\<open>while (temp_len > 0)\<close>: the nodes linked so far, and whether
  every allocation succeeded. \<open>k\<close> counts the allocation attempts of the call.
\<close>

function alloc_records ::
  "(nat \<Rightarrow> bool) \<Rightarrow> nat \<Rightarrow> int \<Rightarrow> object_content list \<Rightarrow> bool \<times> object_content list" where
  "alloc_records alloc k temp_len news =
     (if 0 < temp_len then
        (if alloc k
         then alloc_records alloc (Suc k) (temp_len - OBJECT_MAX_SIZE) (news @ [new_page])
         else (False, news))
      else (True, news))"
  by pat_completeness auto
termination
  by (relation "measure (\<lambda>(alloc, k, temp_len, news). nat temp_len)") auto

declare alloc_records.simps [simp del]

text \<open>
  Second walk: \<^verbatim>\<open>while(temp_object->record_length == OBJECT_MAX_SIZE)\<close>, which
  dereferences \<^verbatim>\<open>NULL\<close> when every node is full.
\<close>

fun skip_full ::
  "object_content list \<Rightarrow> object_content list \<Rightarrow>
   (object_content list \<times> object_content list) option" where
  "skip_full pre [] = None"
| "skip_full pre (p # ps) =
     (if record_length p = OBJECT_MAX_SIZE then skip_full (pre @ [p]) ps
      else Some (pre, p # ps))"

text \<open>The copy loop \<^verbatim>\<open>while(len > 0)\<close>.\<close>

function copy_loop ::
  "nat \<Rightarrow> byte list \<Rightarrow> int \<Rightarrow> object_content list \<Rightarrow> object_content list \<Rightarrow>
   (int \<times> object_content list) option" where
  "copy_loop len buffer tot_written pre ps =
     (if 0 < len then
        (case ps of
           [] \<Rightarrow> None
         | t # rest \<Rightarrow>
             (let curr_length =
                    (if size_t_of (OBJECT_MAX_SIZE - record_length t) < len
                     then OBJECT_MAX_SIZE - record_length t else int len);
                  t' = t\<lparr>record_length := record_length t + curr_length,
                         stream_content :=
                           memcpy (stream_content t) (nat (record_length t))
                             (take (nat curr_length) (drop (nat tot_written) buffer))\<rparr>
              in if record_length t' = OBJECT_MAX_SIZE \<and> 0 < len - nat curr_length
                 then copy_loop (len - nat curr_length) buffer (tot_written + curr_length)
                        (pre @ [t']) rest
                 else copy_loop (len - nat curr_length) buffer (tot_written + curr_length)
                        pre (t' # rest)))
      else Some (tot_written, pre @ ps))"
  by pat_completeness auto
termination
  apply (relation "measures [\<lambda>(len, buffer, tot_written, pre, ps). length ps,
                             \<lambda>(len, buffer, tot_written, pre, ps). len]")
    apply (auto simp: size_t_of_def split: if_splits)
  done

declare copy_loop.simps [simp del]

text \<open>
  \<^verbatim>\<open>write_data\<close> on the list of one flow: the value returned and the list left
  behind. A new node is linked with \<^verbatim>\<open>temp_object->next = new_record\<close>, which drops
  whatever followed \<^verbatim>\<open>temp_object\<close>.
\<close>

definition write_pages ::
  "(nat \<Rightarrow> bool) \<Rightarrow> nat \<Rightarrow> byte list \<Rightarrow> object_content list \<Rightarrow>
   (int \<times> object_content list) option" where
  "write_pages alloc len buffer pages =
     (if pages = [] \<and> \<not> alloc 0 then Some (- ENOMEM, pages)
      else
        (let k = (if pages = [] then 1 else 0);
             pages1 = (if pages = [] then [new_page] else pages);
             (pre, t, post) = find_write_page [] (hd pages1) (tl pages1);
             temp_len = int len
         in if (OBJECT_MAX_SIZE - record_length t) - temp_len < 0 then
              (case alloc_records alloc k (temp_len - (OBJECT_MAX_SIZE - record_length t)) [] of
                 (ok, news) \<Rightarrow>
                   (let pages2 = pre @ t # (if news = [] then post else news)
                    in if \<not> ok then Some (- ENOMEM, pages2)
                       else (case skip_full [] pages2 of
                               None \<Rightarrow> None
                             | Some (pre2, ps2) \<Rightarrow> copy_loop len buffer 0 pre2 ps2)))
            else (case skip_full [] pages1 of
                    None \<Rightarrow> None
                  | Some (pre2, ps2) \<Rightarrow> copy_loop len buffer 0 pre2 ps2)))"

definition write_data ::
  "(nat \<Rightarrow> bool) \<Rightarrow> nat \<Rightarrow> nat \<Rightarrow> byte list \<Rightarrow> int \<Rightarrow> driver \<Rightarrow> (driver \<times> int) option" where
  "write_data alloc len m buffer p d =
     (case write_pages alloc len buffer (list_heads (objects d m) p) of
        None \<Rightarrow> None
      | Some (ret, pages) \<Rightarrow>
          Some (upd_object m (\<lambda>ob. ob\<lparr>list_heads := (list_heads ob)(p := pages)\<rparr>) d, ret))"

subsection \<open>\<^verbatim>\<open>dev_open\<close> and \<^verbatim>\<open>dev_release\<close>\<close>

text \<open>
  \<open>alloc_ok\<close> tells whether \<^verbatim>\<open>kzalloc(sizeof(io_sess_info))\<close> succeeds. The result
  is the value returned and the session stored in \<^verbatim>\<open>file->private_data\<close>.
\<close>

definition dev_open :: "bool \<Rightarrow> driver \<Rightarrow> nat \<Rightarrow> int \<times> io_sess_info option" where
  "dev_open alloc_ok d m =
     (if MINORS \<le> m then (- ENODEV, None)
      else if enable_disable_array d m \<noteq> 0 then (- 1, None)
      else if alloc_ok then (0, Some \<lparr>priority = 1, timeout = 0\<rparr>)
      else (- 1, None))"

definition dev_release :: "driver \<Rightarrow> io_sess_info \<Rightarrow> nat \<Rightarrow> driver \<times> int" where
  "dev_release d sess_info m = (d, 0)"

subsection \<open>\<^verbatim>\<open>dev_write\<close>\<close>

text \<open>
  An index outside \<^verbatim>\<open>objects[MINORS]\<close> or outside the arrays of size
  \<^verbatim>\<open>NR_FLOWS\<close> is undefined behaviour.
\<close>

definition in_bounds :: "io_sess_info \<Rightarrow> nat \<Rightarrow> bool" where
  "in_bounds sess_info m = (m < MINORS \<and> (priority sess_info = 0 \<or> priority sess_info = 1))"

text \<open>
  Lines 237-251 and 387-394: the flow has nothing to offer and the session may wait.
  \<open>Inl\<close> is a return from the system call, \<open>Inr\<close> goes on with the mutex held.
\<close>

definition wait_for_flow ::
  "env \<Rightarrow> io_sess_info \<Rightarrow> nat \<Rightarrow> wait_ops \<Rightarrow> int \<Rightarrow> driver \<Rightarrow> (driver \<times> int) + driver" where
  "wait_for_flow e sess_info m event failure d =
     (case try_wait_for_data (data_wait e) sess_info m 0 event
             (mutex_unlock m (priority sess_info) d) of
        (d1, r) \<Rightarrow>
          if r \<noteq> 1 then Inl (d1, failure)
          else (case try_get_lock (relock_wait e) sess_info m d1 of
                  (d2, got) \<Rightarrow> if got \<noteq> 1 then Inl (d2, - 1) else Inr d2))"

definition unlock_wake :: "nat \<Rightarrow> int \<Rightarrow> driver \<Rightarrow> driver" where
  "unlock_wake m p d = wake_up_interruptible m p (mutex_unlock m p d)"

text \<open>Lines 272-328: the low priority flow, the write is handed to the work queue.\<close>

definition dev_write_low :: "env \<Rightarrow> nat \<Rightarrow> byte list \<Rightarrow> nat \<Rightarrow> driver \<Rightarrow> driver \<times> int" where
  "dev_write_low e m temp_buffer len d =
     (if \<not> module_get_ok e then (unlock_wake m 0 d, - ENODEV)
      else if \<not> wq_alloc_ok e then (unlock_wake m 0 d, - 1)
      else if \<not> kmalloc (wq_data_alloc_ok e) len then (unlock_wake m 0 d, - ENOMEM)
      else
        (let the_wq = \<lparr>wq_data = temp_buffer, wq_minor = m, wq_len = len\<rparr>;
             d1 = upd_object m (\<lambda>ob. ob\<lparr>total_free_bytes :=
                    (total_free_bytes ob)(0 := total_free_bytes ob 0 - int len)\<rparr>) d;
             d2 = mutex_unlock m 0 d1;
             d3 = d2\<lparr>system_wq := system_wq d2 @ [the_wq]\<rparr>
         in (wake_up_interruptible m 0 d3, int len)))"

text \<open>Lines 330-344: the high priority flow, the write is synchronous.\<close>

definition dev_write_high ::
  "env \<Rightarrow> io_sess_info \<Rightarrow> nat \<Rightarrow> byte list \<Rightarrow> nat \<Rightarrow> driver \<Rightarrow> (driver \<times> int) option" where
  "dev_write_high e sess_info m temp_buffer len d =
     (case write_data (page_alloc e) len m temp_buffer (priority sess_info) d of
        None \<Rightarrow> None
      | Some (d1, tot_written) \<Rightarrow>
          (let d2 = upd_object m (\<lambda>ob. ob\<lparr>
                      valid_bytes := (valid_bytes ob)(1 := valid_bytes ob 1 + tot_written),
                      total_free_bytes :=
                        (total_free_bytes ob)(1 := total_free_bytes ob 1 - tot_written)\<rparr>) d1;
               d3 = d2\<lparr>high_data_count :=
                      (high_data_count d2)(m := high_data_count d2 m + ulong_of tot_written)\<rparr>
           in Some (unlock_wake m 1 d3, tot_written)))"

text \<open>Lines 254-344, entered with the mutex of the flow held.\<close>

definition dev_write_locked ::
  "env \<Rightarrow> io_sess_info \<Rightarrow> nat \<Rightarrow> byte list \<Rightarrow> nat \<Rightarrow> driver \<Rightarrow> (driver \<times> int) option" where
  "dev_write_locked e sess_info m temp_buffer len d =
     (let p = priority sess_info in
      if total_free_bytes (objects d m) p = 0 then Some (unlock_wake m p d, - ENOSPC)
      else
        (let len1 = (if size_t_of (total_free_bytes (objects d m) p) < len
                     then size_t_of (total_free_bytes (objects d m) p) else len)
         in if priority sess_info = 0 then Some (dev_write_low e m temp_buffer len1 d)
            else dev_write_high e sess_info m temp_buffer len1 d))"

definition dev_write ::
  "env \<Rightarrow> driver \<Rightarrow> io_sess_info \<Rightarrow> nat \<Rightarrow> byte list \<Rightarrow> nat \<Rightarrow> (driver \<times> int) option" where
  "dev_write e d sess_info m buff len0 =
     (if \<not> in_bounds sess_info m then None
      else if \<not> kmalloc (kmalloc_ok e) len0 then Some (d, - ENOMEM)
      else
        (case copy_from_user buff len0 of (ret, temp_buffer) \<Rightarrow>
         let len = len0 - ret in
         case try_get_lock (lock_wait e) sess_info m d of (d1, got) \<Rightarrow>
         if got \<noteq> 1 then Some (d1, - 1)
         else if total_free_bytes (objects d1 m) (priority sess_info) = 0 \<and> 0 < timeout sess_info
         then (case wait_for_flow e sess_info m WAIT_WRITE (- ENOSPC) d1 of
                 Inl r \<Rightarrow> Some r
               | Inr d2 \<Rightarrow> dev_write_locked e sess_info m temp_buffer len d2)
         else dev_write_locked e sess_info m temp_buffer len d1))"

subsection \<open>\<^verbatim>\<open>dev_read\<close>\<close>

text \<open>
  The loop \<^verbatim>\<open>while(len > 0)\<close> of lines 426-440. It dereferences \<^verbatim>\<open>NULL\<close> when
  the list ends before \<open>len\<close> bytes are found, and it never ends when a node that is not
  full has nothing left to read; in both cases the value is \<open>None\<close>.
\<close>

partial_function (option) read_loop ::
  "nat \<Rightarrow> byte list \<Rightarrow> int \<Rightarrow> nat \<Rightarrow> object_content list \<Rightarrow> object_content list \<Rightarrow>
   (byte list \<times> int \<times> nat \<times> object_content list) option" where
  "read_loop len temp_buffer total_len record_to_rem pre ps =
     (if 0 < len then
        (case ps of
           [] \<Rightarrow> None
         | obj_index # rest \<Rightarrow>
             (let len_to_read =
                    (if size_t_of (record_length obj_index - read_offset obj_index) \<le> len
                     then record_length obj_index - read_offset obj_index else int len);
                  temp_buffer' = memcpy temp_buffer (nat total_len)
                     (take (nat len_to_read)
                        (drop (nat (read_offset obj_index)) (stream_content obj_index)));
                  obj' = obj_index\<lparr>read_offset := read_offset obj_index + len_to_read\<rparr>
              in if read_offset obj' = OBJECT_MAX_SIZE
                 then read_loop (len - nat len_to_read) temp_buffer' (total_len + len_to_read)
                        (Suc record_to_rem) (pre @ [obj']) rest
                 else read_loop (len - nat len_to_read) temp_buffer' (total_len + len_to_read)
                        record_to_rem pre (obj' # rest)))
      else Some (temp_buffer, total_len, record_to_rem, pre @ ps))"

declare read_loop.simps [code]

text \<open>Lines 396-474, entered with the mutex of the flow held.\<close>

definition dev_read_locked ::
  "env \<Rightarrow> io_sess_info \<Rightarrow> nat \<Rightarrow> byte list \<Rightarrow> nat \<Rightarrow> driver \<Rightarrow>
   (driver \<times> int \<times> byte list) option" where
  "dev_read_locked e sess_info m buff len d =
     (let p = priority sess_info in
      if valid_bytes (objects d m) p = 0 then Some (unlock_wake m p d, 0, buff)
      else
        (let len1 = (if size_t_of (valid_bytes (objects d m) p) < len
                     then size_t_of (valid_bytes (objects d m) p) else len)
         in if \<not> kmalloc (kmalloc_ok e) len1 then Some (unlock_wake m p d, - ENOMEM, buff)
            else
              (case read_loop len1 (replicate len1 0) 0 0 [] (list_heads (objects d m) p) of
                 None \<Rightarrow> None
               | Some (temp_buffer, total_len, record_to_rem, pages) \<Rightarrow>
                   (let d1 = upd_object m (\<lambda>ob. ob\<lparr>
                               list_heads := (list_heads ob)(p := drop record_to_rem pages),
                               valid_bytes := (valid_bytes ob)(p := valid_bytes ob p - total_len),
                               total_free_bytes :=
                                 (total_free_bytes ob)(p := total_free_bytes ob p + total_len)\<rparr>) d;
                        d2 = (if p \<noteq> 0
                              then d1\<lparr>high_data_count := (high_data_count d1)
                                       (m := high_data_count d1 m - ulong_of total_len)\<rparr>
                              else d1\<lparr>low_data_count := (low_data_count d1)
                                       (m := low_data_count d1 m - ulong_of total_len)\<rparr>)
                    in (case copy_to_user buff temp_buffer (nat total_len) of
                          (ret, buff1) \<Rightarrow>
                            Some (unlock_wake m p d2, total_len - int ret, buff1))))))"

definition dev_read ::
  "env \<Rightarrow> driver \<Rightarrow> io_sess_info \<Rightarrow> nat \<Rightarrow> byte list \<Rightarrow> nat \<Rightarrow>
   (driver \<times> int \<times> byte list) option" where
  "dev_read e d sess_info m buff len0 =
     (case clear_user buff len0 of (ret, buff1) \<Rightarrow>
      let len = len0 - ret in
      if \<not> in_bounds sess_info m then None
      else
        (case try_get_lock (lock_wait e) sess_info m d of (d1, got) \<Rightarrow>
         if got \<noteq> 1 then Some (d1, - 1, buff1)
         else if valid_bytes (objects d1 m) (priority sess_info) = 0 \<and> 0 < timeout sess_info
         then (case wait_for_flow e sess_info m WAIT_READ 0 d1 of
                 Inl (d2, r) \<Rightarrow> Some (d2, r, buff1)
               | Inr d2 \<Rightarrow> dev_read_locked e sess_info m buff1 len d2)
         else dev_read_locked e sess_info m buff1 len d1))"

subsection \<open>\<^verbatim>\<open>dev_ioctl\<close>\<close>

text \<open>
  \<^verbatim>\<open>sess_info->priority = param\<close> keeps the low 32 bits of the
  \<^verbatim>\<open>unsigned long\<close> as a signed \<^verbatim>\<open>int\<close>; \<^verbatim>\<open>sess_info->timeout = param\<close>
  reads it as a signed \<^verbatim>\<open>long\<close>.
\<close>

definition int_of_ulong :: "ulong \<Rightarrow> int" where
  "int_of_ulong x = sint (ucast x :: 32 word)"

definition long_of_ulong :: "ulong \<Rightarrow> int" where
  "long_of_ulong x = sint x"

definition dev_ioctl ::
  "env \<Rightarrow> driver \<Rightarrow> io_sess_info \<Rightarrow> nat \<Rightarrow> nat \<Rightarrow> ulong \<Rightarrow>
   (driver \<times> io_sess_info \<times> int) option" where
  "dev_ioctl e d sess_info m command param =
     (if \<not> in_bounds sess_info m then None
      else
        (case try_get_lock (lock_wait e) sess_info m d of (d1, got) \<Rightarrow>
         if got \<noteq> 1 then Some (d1, sess_info, - ENODEV)
         else
           (let prev_prio = priority sess_info in
            if command = SET_PRIO
            then Some (unlock_wake m prev_prio d1,
                       sess_info\<lparr>priority := int_of_ulong param\<rparr>, 0)
            else if command = SET_BLOCKING
            then Some (unlock_wake m prev_prio d1,
                       sess_info\<lparr>timeout := long_of_ulong param\<rparr>, 0)
            else if command = SET_OPENCLOSE
            then Some (unlock_wake m prev_prio
                         (d1\<lparr>enable_disable_array := (enable_disable_array d1)(m := param)\<rparr>),
                       sess_info, 0)
            else Some (unlock_wake m prev_prio d1, sess_info, - 1))))"

subsection \<open>The work queue\<close>

text \<open>
  \<^verbatim>\<open>mutex_lock\<close> waits until the mutex is free and takes it.
\<close>

definition mutex_lock :: "nat \<Rightarrow> int \<Rightarrow> driver \<Rightarrow> driver" where
  "mutex_lock m p d = log_event (Mutex_lock m p) (set_mutex m p True d)"

definition do_wq_write :: "env \<Rightarrow> packed_data_wq \<Rightarrow> driver \<Rightarrow> driver option" where
  "do_wq_write e job d =
     (let buffer = wq_data job; m = wq_minor job; tot_bytes = wq_len job in
      if \<not> m < MINORS then None
      else
        (case write_data (page_alloc e) tot_bytes m buffer 0 (mutex_lock m 0 d) of
           None \<Rightarrow> None
         | Some (d1, ret) \<Rightarrow>
             (let d2 = upd_object m (\<lambda>ob. ob\<lparr>valid_bytes :=
                         (valid_bytes ob)(0 := valid_bytes ob 0 + int tot_bytes)\<rparr>) d1;
                  d3 = d2\<lparr>low_data_count :=
                         (low_data_count d2)(m := low_data_count d2 m + ulong_of (int tot_bytes))\<rparr>
              in Some (unlock_wake m 0 d3))))"

text \<open>
  The kernel worker of CPU 0 takes the oldest job scheduled with
  \<^verbatim>\<open>schedule_work_on(0, ...)\<close> and calls its function.
\<close>

definition run_work :: "env \<Rightarrow> driver \<Rightarrow> driver option" where
  "run_work e d =
     (case system_wq d of
        [] \<Rightarrow> Some d
      | job # rest \<Rightarrow> do_wq_write e job (d\<lparr>system_wq := rest\<rparr>))"

subsection \<open>\<^verbatim>\<open>init_module\<close>\<close>

text \<open>
  The state that \<^verbatim>\<open>init_module\<close> leaves when it returns 0: every flow of every minor
  has one empty page, no valid byte and \<^verbatim>\<open>OBJECT_MAX_SIZE*MAX_PAGES\<close> free bytes; the
  module parameters are zero-initialised globals.
\<close>

definition init_object :: object_state where
  "init_object =
     \<lparr>operation_synchronizer = (\<lambda>j. False),
      valid_bytes = (\<lambda>j. 0),
      total_free_bytes = (\<lambda>j. OBJECT_MAX_SIZE * MAX_PAGES),
      list_heads = (\<lambda>j. [new_page])\<rparr>"

definition init_module :: driver where
  "init_module =
     \<lparr>objects = (\<lambda>i. init_object),
      enable_disable_array = (\<lambda>i. 0),
      high_data_count = (\<lambda>i. 0),
      low_data_count = (\<lambda>i. 0),
      high_wait_data = (\<lambda>i. 0),
      low_wait_data = (\<lambda>i. 0),
      system_wq = [],
      sync_trace = []\<rparr>"

subsection \<open>Inputs used in the examples\<close>

text \<open>Every allocation succeeds and every sleep runs into its timeout.\<close>

definition env_ok :: env where
  "env_ok =
     \<lparr>lock_wait = Expired, data_wait = Expired, relock_wait = Expired, kmalloc_ok = True,
      module_get_ok = True, wq_alloc_ok = True, wq_data_alloc_ok = True,
      page_alloc = (\<lambda>k. True)\<rparr>"

text \<open>The session that \<^verbatim>\<open>dev_open\<close> creates, and the same after \<^verbatim>\<open>SET_PRIO\<close> 0.\<close>

definition high_session :: io_sess_info where
  "high_session = \<lparr>priority = 1, timeout = 0\<rparr>"

definition low_session :: io_sess_info where
  "low_session = \<lparr>priority = 0, timeout = 0\<rparr>"

text \<open>A session whose operations may sleep for five jiffies.\<close>

definition blocking_session :: io_sess_info where
  "blocking_session = \<lparr>priority = 1, timeout = 5\<rparr>"

text \<open>
  The device after \<^verbatim>\<open>init_module\<close> and one write of
  \<^verbatim>\<open>OBJECT_MAX_SIZE*MAX_PAGES\<close> zero bytes to the high priority flow of minor 0.
\<close>

definition full_device :: driver where
  "full_device =
     fst (the (dev_write env_ok init_module high_session 0 (replicate 20480 0) 20480))"

definition full_page :: object_content where
  "full_page = \<lparr>record_length = 4096, read_offset = 0, stream_content = replicate 4096 0\<rparr>"

text \<open>
  The device after \<^verbatim>\<open>init_module\<close> and one write of the five bytes
  \<^verbatim>\<open>hello\<close> to the high priority flow of minor 0.
\<close>

definition hello_device :: driver where
  "hello_device =
     fst (the (dev_write env_ok init_module high_session 0 [104, 101, 108, 108, 111] 5))"

text \<open>
  The device after \<^verbatim>\<open>init_module\<close> and one write of \<^verbatim>\<open>OBJECT_MAX_SIZE\<close>
  bytes of value 7 to the high priority flow of minor 0, and the page that this write
  fills.
\<close>

definition page_device :: driver where
  "page_device =
     fst (the (dev_write env_ok init_module high_session 0 (replicate 4096 7) 4096))"

definition seven_page :: object_content where
  "seven_page = \<lparr>record_length = 4096, read_offset = 0, stream_content = replicate 4096 7\<rparr>"

text \<open>
  The device after \<^verbatim>\<open>init_module\<close> and one write of the four bytes
  \<^verbatim>\<open>abcd\<close> to the low priority flow of minor 0, the work queue not yet run.
\<close>

definition abcd_device :: driver where
  "abcd_device = fst (the (dev_write env_ok init_module low_session 0 [97, 98, 99, 100] 4))"

text \<open>The same with 4097 zero bytes, which do not fit into the page of the flow.\<close>

definition queued_device :: driver where
  "queued_device =
     fst (the (dev_write env_ok init_module low_session 0 (replicate 4097 0) 4097))"

text \<open>No list node or page can be allocated.\<close>

definition env_no_pages :: env where
  "env_no_pages = env_ok\<lparr>page_alloc := (\<lambda>k. False)\<rparr>"

text \<open>The device after the write of \<^verbatim>\<open>hello\<close> and a read of two bytes.\<close>

definition partly_read_device :: driver where
  "partly_read_device = fst (the (dev_read env_ok hello_device high_session 0 [0, 0] 2))"

subsection \<open>Notions of the specification\<close>

text \<open>
  The flow state of one minor that a call can leave unchanged: the byte counters and
  the lists of both flows, and the per-minor counters of the module.
\<close>

definition same_flow_data :: "driver \<Rightarrow> driver \<Rightarrow> nat \<Rightarrow> bool" where
  "same_flow_data d d' m =
     (valid_bytes (objects d' m) = valid_bytes (objects d m)
      \<and> total_free_bytes (objects d' m) = total_free_bytes (objects d m)
      \<and> list_heads (objects d' m) = list_heads (objects d m)
      \<and> high_data_count d' = high_data_count d \<and> low_data_count d' = low_data_count d
      \<and> high_wait_data d' = high_wait_data d \<and> low_wait_data d' = low_wait_data d)"

text \<open>
  The data model of a page: the fill length is between 0 and the page size, the read
  cursor between 0 and the fill length.
\<close>

definition page_ok :: "object_content \<Rightarrow> bool" where
  "page_ok p = (0 \<le> read_offset p \<and> read_offset p \<le> record_length p
                \<and> record_length p \<le> OBJECT_MAX_SIZE)"

text \<open>
  The operations on the device: the five entry points, each with what the kernel
  answers during the call, and the execution of the oldest deferred write. \<open>exec\<close> is
  the device after the operation. The states the device can be in are those reached
  from \<^verbatim>\<open>init_module\<close> by operations.
\<close>

datatype call =
  Open bool nat
| Release io_sess_info nat
| Write env io_sess_info nat "byte list" nat
| Read env io_sess_info nat "byte list" nat
| Ioctl env io_sess_info nat nat ulong
| Work env

fun exec :: "call \<Rightarrow> driver \<Rightarrow> driver option" where
  "exec (Open alloc_ok m) d = Some d"
| "exec (Release sess_info m) d = Some (fst (dev_release d sess_info m))"
| "exec (Write e sess_info m buff len) d = map_option fst (dev_write e d sess_info m buff len)"
| "exec (Read e sess_info m buff len) d = map_option fst (dev_read e d sess_info m buff len)"
| "exec (Ioctl e sess_info m command param) d =
     map_option fst (dev_ioctl e d sess_info m command param)"
| "exec (Work e) d = run_work e d"

inductive reachable :: "driver \<Rightarrow> bool" where
  init: "reachable init_module"
| step: "reachable d \<Longrightarrow> exec c d = Some d' \<Longrightarrow> reachable d'"

text \<open>
  The bytes of flow \<open>f\<close> of minor \<open>m\<close> that deferred writes have reserved and not yet
  copied: the lengths of the jobs of the minor in the work queue, for the low priority
  flow.
\<close>

definition reserved :: "driver \<Rightarrow> nat \<Rightarrow> int \<Rightarrow> int" where
  "reserved d m f =
     (if f = 0 then sum_list (map (\<lambda>job. int (wq_len job))
                                (filter (\<lambda>job. wq_minor job = m) (system_wq d)))
      else 0)"

definition capacity_eq :: "driver \<Rightarrow> nat \<Rightarrow> int \<Rightarrow> bool" where
  "capacity_eq d m f =
     (valid_bytes (objects d m) f + total_free_bytes (objects d m) f + reserved d m f
      = OBJECT_MAX_SIZE * MAX_PAGES)"

text \<open>The bytes present in a list of pages: the sum of fill minus read cursor.\<close>

definition stored :: "object_content list \<Rightarrow> int" where
  "stored pages = sum_list (map (\<lambda>p. record_length p - read_offset p) pages)"

definition flow_pages :: "driver \<Rightarrow> nat \<Rightarrow> int \<Rightarrow> object_content list" where
  "flow_pages d m f = list_heads (objects d m) f"

text \<open>
  Only the head of a list may have a read cursor other than 0, and no page of the list
  has its read cursor at the page size.
\<close>

definition cursor_inv :: "object_content list \<Rightarrow> bool" where
  "cursor_inv pages =
     ((\<forall>p\<in>set (tl pages). read_offset p = 0)
      \<and> (\<forall>p\<in>set pages. read_offset p \<noteq> OBJECT_MAX_SIZE))"

text \<open>
  The bytes of a flow that are written and not yet read: of every page of the list, in
  list order, the content from the read cursor on.
\<close>

definition page_bytes :: "object_content \<Rightarrow> byte list" where
  "page_bytes p = drop (nat (read_offset p)) (stream_content p)"

definition log_bytes :: "object_content list \<Rightarrow> byte list" where
  "log_bytes pages = concat (map page_bytes pages)"

text \<open>
  A page holds the \<^verbatim>\<open>record_length\<close> bytes written to it, and only the
  last page of a list may be less than full: the state in which \<^verbatim>\<open>write_data\<close>
  and the loop of \<^verbatim>\<open>dev_read\<close> leave a list.
\<close>

definition page_wf :: "object_content \<Rightarrow> bool" where
  "page_wf p = (page_ok p \<and> int (length (stream_content p)) = record_length p)"








section \<open>Properties\<close>

lemmas sync_defs = try_get_lock_def mutex_trylock_def do_sleep_wqe_def
  wait_event_interruptible_timeout_exclusive_def unlock_wake_def mutex_unlock_def
  wake_up_interruptible_def log_event_def set_mutex_def upd_object_def mutex_lock_def

subsection \<open>Opening a device file\<close>

text \<open>
  C4, as the specification states it, fails: minor 0 is below 128 and enabled after
  \<^verbatim>\<open>init_module\<close>, and yet \<^verbatim>\<open>dev_open\<close> returns -1 when the session record cannot be
  allocated.
\<close>

theorem dev_open_alloc_failure:
  "(0::nat) < MINORS \<and> enable_disable_array init_module 0 = 0
   \<and> dev_open False init_module 0 = (- 1, None)"
  by (simp add: dev_open_def init_module_def)

text \<open>
  C4, amended: \<^verbatim>\<open>dev_open\<close> returns 0 exactly when the minor is below 128, the
  enable flag of the minor is 0 and the session record is allocated; it returns
  \<^verbatim>\<open>-ENODEV\<close> for a minor of 128 or more, and the different value -1 for a disabled
  minor (and also when the allocation fails); the session of a successful open has
  priority 1 and timeout 0.
\<close>

theorem dev_open_outcome:
  "(fst (dev_open alloc_ok d m) = 0) = (m < MINORS \<and> enable_disable_array d m = 0 \<and> alloc_ok)
   \<and> (MINORS \<le> m \<longrightarrow> dev_open alloc_ok d m = (- ENODEV, None))
   \<and> (m < MINORS \<and> enable_disable_array d m \<noteq> 0 \<longrightarrow> dev_open alloc_ok d m = (- 1, None))
   \<and> (m < MINORS \<and> enable_disable_array d m = 0 \<and> \<not> alloc_ok \<longrightarrow>
        dev_open alloc_ok d m = (- 1, None))
   \<and> (fst (dev_open alloc_ok d m) = 0 \<longrightarrow>
        snd (dev_open alloc_ok d m) = Some \<lparr>priority = 1, timeout = 0\<rparr>)"
  by (simp add: dev_open_def)

theorem dev_open_outcome_witness:
  "dev_open True init_module 5 = (0, Some \<lparr>priority = 1, timeout = 0\<rparr>)
   \<and> dev_open True init_module 128 = (- ENODEV, None)
   \<and> dev_open True (init_module\<lparr>enable_disable_array := (\<lambda>i. 1)\<rparr>) 5 = (- 1, None)"
  using dev_open_outcome [of True init_module 5] dev_open_outcome [of True init_module 128]
    dev_open_outcome [of True "init_module\<lparr>enable_disable_array := (\<lambda>i. 1)\<rparr>" 5]
  by (simp add: init_module_def prod_eq_iff)

subsection \<open>The control call\<close>

text \<open>
  C6, as the specification states it, fails: \<^verbatim>\<open>SET_PRIO\<close> with the argument 7 returns
  0 and stores 7 as the priority of the session.
\<close>

theorem dev_ioctl_accepts_any_priority:
  "map_option snd (dev_ioctl env_ok init_module high_session 0 SET_PRIO 7)
   = Some (\<lparr>priority = 7, timeout = 0\<rparr>, 0)"
  by (simp add: dev_ioctl_def in_bounds_def high_session_def sync_defs init_module_def
      init_object_def int_of_ulong_def)

text \<open>
  C6, amended: a control call with a command other than \<^verbatim>\<open>SET_PRIO\<close>,
  \<^verbatim>\<open>SET_BLOCKING\<close> and \<^verbatim>\<open>SET_OPENCLOSE\<close> fails: it returns -1 when it has taken
  the mutex of the flow, which it then releases with a wake-up, and \<^verbatim>\<open>-ENODEV\<close> when
  it could not take the mutex. In both cases the priority and the timeout of the
  session and the enable flags are as they were. The argument of a recognised command
  is not checked: with the mutex of the flow free, the mutex is taken and each of the
  three commands stores its argument and returns 0.
\<close>

theorem dev_ioctl_outcome:
  assumes "in_bounds sess_info m"
  shows "(command \<noteq> SET_PRIO \<and> command \<noteq> SET_BLOCKING \<and> command \<noteq> SET_OPENCLOSE \<longrightarrow>
           (\<exists>d'. dev_ioctl e d sess_info m command param
                   = Some (d', sess_info,
                       if snd (try_get_lock (lock_wait e) sess_info m d) = 1
                       then - 1 else - ENODEV)
               \<and> enable_disable_array d' = enable_disable_array d
               \<and> (snd (try_get_lock (lock_wait e) sess_info m d) = 1 \<longrightarrow>
                    \<not> operation_synchronizer (objects d' m) (priority sess_info)
                    \<and> sync_trace d'
                        = sync_trace (fst (try_get_lock (lock_wait e) sess_info m d))
                          @ [Mutex_unlock m (priority sess_info),
                             Wake_up m (priority sess_info)])))
       \<and> (\<not> operation_synchronizer (objects d m) (priority sess_info) \<longrightarrow>
           snd (try_get_lock (lock_wait e) sess_info m d) = 1
         \<and> (\<exists>d'. dev_ioctl e d sess_info m SET_PRIO param =
                   Some (d', sess_info\<lparr>priority := int_of_ulong param\<rparr>, 0))
         \<and> (\<exists>d'. dev_ioctl e d sess_info m SET_BLOCKING param =
                   Some (d', sess_info\<lparr>timeout := long_of_ulong param\<rparr>, 0))
         \<and> (\<exists>d'. dev_ioctl e d sess_info m SET_OPENCLOSE param = Some (d', sess_info, 0)
                  \<and> enable_disable_array d' = (enable_disable_array d)(m := param)))"
  using assms
  by (auto simp: dev_ioctl_def sync_defs Let_def split: if_splits prod.splits wait_result.splits)

theorem dev_ioctl_outcome_witness:
  "in_bounds high_session 0
   \<and> (\<exists>d'. dev_ioctl env_ok init_module high_session 0 2 0 = Some (d', high_session, - 1)
         \<and> enable_disable_array d' = enable_disable_array init_module)
   \<and> (\<exists>d'. dev_ioctl env_ok (set_mutex 0 1 True init_module) high_session 0 2 0
             = Some (d', high_session, - ENODEV))
   \<and> (\<exists>d'. dev_ioctl env_ok init_module high_session 0 SET_BLOCKING 9
             = Some (d', \<lparr>priority = 1, timeout = 9\<rparr>, 0))"
proof -
  have b: "in_bounds high_session 0"
    by (simp add: in_bounds_def high_session_def)
  have f: "\<not> operation_synchronizer (objects init_module 0) (priority high_session)"
    by (simp add: init_module_def init_object_def)
  have l: "snd (try_get_lock (lock_wait env_ok) high_session 0 init_module) = 1"
    "snd (try_get_lock (lock_wait env_ok) high_session 0 (set_mutex 0 1 True init_module)) = 0"
    by (simp_all add: sync_defs init_module_def init_object_def high_session_def)
  have t: "high_session\<lparr>timeout := long_of_ulong 9\<rparr> = \<lparr>priority = 1, timeout = 9\<rparr>"
    by (simp add: high_session_def long_of_ulong_def)
  have u: "\<exists>d'. dev_ioctl env_ok init_module high_session 0 2 0 = Some (d', high_session, - 1)
         \<and> enable_disable_array d' = enable_disable_array init_module"
    using dev_ioctl_outcome [OF b, of 2 env_ok init_module 0] l(1) by auto
  have v: "\<exists>d'. dev_ioctl env_ok (set_mutex 0 1 True init_module) high_session 0 2 0
             = Some (d', high_session, - ENODEV)"
    using dev_ioctl_outcome [OF b, of 2 env_ok "set_mutex 0 1 True init_module" 0] l(2) by auto
  have w: "\<exists>d'. dev_ioctl env_ok init_module high_session 0 SET_BLOCKING 9
             = Some (d', \<lparr>priority = 1, timeout = 9\<rparr>, 0)"
    using dev_ioctl_outcome [OF b, of 2 env_ok init_module 9] f t by auto
  from b u v w show ?thesis by blast
qed

subsection \<open>Frame lemmas\<close>

lemma size_t_of_id [simp]: "0 \<le> i \<Longrightarrow> i < 2 ^ 64 \<Longrightarrow> size_t_of i = nat i"
  by (simp add: size_t_of_def)

lemma try_get_lock_frame:
  "try_get_lock w s m d = (d1, got) \<Longrightarrow>
     valid_bytes (objects d1 m') = valid_bytes (objects d m')
   \<and> total_free_bytes (objects d1 m') = total_free_bytes (objects d m')
   \<and> list_heads (objects d1 m') = list_heads (objects d m')
   \<and> high_data_count d1 = high_data_count d \<and> low_data_count d1 = low_data_count d
   \<and> high_wait_data d1 = high_wait_data d \<and> low_wait_data d1 = low_wait_data d
   \<and> system_wq d1 = system_wq d \<and> enable_disable_array d1 = enable_disable_array d"
  by (auto simp: sync_defs Let_def split: if_splits prod.splits wait_result.splits)

lemma try_get_lock_got:
  "try_get_lock w s m d = (d1, 1) \<Longrightarrow> operation_synchronizer (objects d1 m) (priority s)"
  by (auto simp: sync_defs Let_def split: if_splits prod.splits wait_result.splits)

lemma unlock_wake_frame:
  "valid_bytes (objects (unlock_wake m p d) m') = valid_bytes (objects d m')
   \<and> total_free_bytes (objects (unlock_wake m p d) m') = total_free_bytes (objects d m')
   \<and> list_heads (objects (unlock_wake m p d) m') = list_heads (objects d m')
   \<and> high_data_count (unlock_wake m p d) = high_data_count d
   \<and> low_data_count (unlock_wake m p d) = low_data_count d
   \<and> high_wait_data (unlock_wake m p d) = high_wait_data d
   \<and> low_wait_data (unlock_wake m p d) = low_wait_data d
   \<and> system_wq (unlock_wake m p d) = system_wq d
   \<and> enable_disable_array (unlock_wake m p d) = enable_disable_array d"
  by (simp add: sync_defs)

lemma wait_for_flow_frame:
  "wait_for_flow e s m ev f d = r \<Longrightarrow> d' = (case r of Inl (x, v) \<Rightarrow> x | Inr x \<Rightarrow> x) \<Longrightarrow>
     valid_bytes (objects d' m') = valid_bytes (objects d m')
   \<and> total_free_bytes (objects d' m') = total_free_bytes (objects d m')
   \<and> list_heads (objects d' m') = list_heads (objects d m')
   \<and> high_data_count d' = high_data_count d \<and> low_data_count d' = low_data_count d
   \<and> high_wait_data d' = high_wait_data d \<and> low_wait_data d' = low_wait_data d
   \<and> system_wq d' = system_wq d \<and> enable_disable_array d' = enable_disable_array d"
  by (auto simp: wait_for_flow_def try_wait_for_data_def add_wait_data_def sync_defs Let_def
      split: if_splits prod.splits wait_result.splits)

lemma wait_for_flow_fail:
  "data_wait e = Expired \<or> data_wait e = Signalled \<Longrightarrow>
   \<exists>d'. wait_for_flow e s m ev f d = Inl (d', f)"
  by (auto simp: wait_for_flow_def try_wait_for_data_def add_wait_data_def sync_defs Let_def
      split: if_splits prod.splits wait_result.splits)

lemma wait_for_flow_cases:
  "ev \<noteq> WAIT_MUTEX \<Longrightarrow> (\<exists>d'. wait_for_flow e s m ev f d = Inl (d', f)) \<or> (\<exists>d'. wait_for_flow e s m ev f d = Inr d')"
  by (auto simp: wait_for_flow_def try_wait_for_data_def add_wait_data_def sync_defs Let_def
      split: if_splits prod.splits wait_result.splits)

subsection \<open>A device filled to its capacity\<close>

lemma write_pages_fill:
  "write_pages (\<lambda>k. True) 20480 (replicate 20480 0) [new_page]
   = Some (20480, [full_page, full_page, full_page, full_page, full_page])"
  by (simp add: write_pages_def new_page_def Let_def memcpy_def full_page_def
      alloc_records.simps copy_loop.simps)

lemma full_device_eq:
  "full_device = init_module
     \<lparr>objects := (objects init_module)(0 := init_object
         \<lparr>operation_synchronizer := (operation_synchronizer init_object)(1 := False),
          valid_bytes := (valid_bytes init_object)(1 := 20480),
          total_free_bytes := (total_free_bytes init_object)(1 := 0),
          list_heads := (list_heads init_object)
             (1 := [full_page, full_page, full_page, full_page, full_page])\<rparr>),
      high_data_count := (high_data_count init_module)(0 := 20480),
      sync_trace := [Mutex_lock 0 1, Mutex_unlock 0 1, Wake_up 0 1]\<rparr>"
  by (simp add: full_device_def dev_write_def in_bounds_def high_session_def env_ok_def kmalloc_def copy_from_user_def
     sync_defs dev_write_locked_def dev_write_high_def write_data_def Let_def
     init_module_def init_object_def write_pages_fill ulong_of_def)


subsection \<open>A write that waits for space\<close>

text \<open>
  C5, as the specification states it, fails: on the full device a write that sleeps and
  is interrupted by a signal returns \<^verbatim>\<open>-ENOSPC\<close>, not \<^verbatim>\<open>-EINTR\<close>.
\<close>

theorem dev_write_signal_returns_ENOSPC:
  "total_free_bytes (objects full_device 0) 1 = 0
   \<and> map_option snd (dev_write (env_ok\<lparr>data_wait := Signalled\<rparr>) full_device blocking_session 0 [1] 1)
      = Some (- ENOSPC)
   \<and> - ENOSPC \<noteq> - EINTR"
  by (simp add: full_device_eq dev_write_def in_bounds_def blocking_session_def env_ok_def kmalloc_def
      copy_from_user_def wait_for_flow_def try_wait_for_data_def add_wait_data_def sync_defs Let_def
      init_module_def init_object_def)

text \<open>
  C5, amended: a write on a session with a positive timeout that takes the mutex, finds
  no free byte and sleeps fails with \<^verbatim>\<open>-ENOSPC\<close> both when the timeout elapses and
  when a signal interrupts the sleep, and leaves the flow state as it was.
\<close>

theorem dev_write_failed_wait:
  assumes "in_bounds sess_info m" and "0 < timeout sess_info"
    and "kmalloc (kmalloc_ok e) len"
    and "snd (try_get_lock (lock_wait e) sess_info m d) = 1"
    and "total_free_bytes (objects d m) (priority sess_info) = 0"
    and "data_wait e = Expired \<or> data_wait e = Signalled"
  shows "\<exists>d'. dev_write e d sess_info m buff len = Some (d', - ENOSPC) \<and> same_flow_data d d' m"
proof -
  obtain d1 where l: "try_get_lock (lock_wait e) sess_info m d = (d1, 1)"
    using assms(4) by (cases "try_get_lock (lock_wait e) sess_info m d") auto
  from wait_for_flow_fail [OF assms(6)] obtain d2 where
    w: "wait_for_flow e sess_info m WAIT_WRITE (- ENOSPC) d1 = Inl (d2, - ENOSPC)" by blast
  have "dev_write e d sess_info m buff len = Some (d2, - ENOSPC)"
    using assms l w try_get_lock_frame [OF l, of m]
    by (simp add: dev_write_def split: prod.splits)
  moreover have "same_flow_data d d2 m"
    using try_get_lock_frame [OF l, of m] wait_for_flow_frame [OF w, of d2 m]
    by (simp add: same_flow_data_def)
  ultimately show ?thesis by blast
qed


theorem dev_write_failed_wait_witness:
  "in_bounds blocking_session 0 \<and> 0 < timeout blocking_session
   \<and> total_free_bytes (objects full_device 0) (priority blocking_session) = 0
   \<and> (\<exists>d'. dev_write (env_ok\<lparr>data_wait := Signalled\<rparr>) full_device blocking_session 0 [1] 1
             = Some (d', - ENOSPC) \<and> same_flow_data full_device d' 0)
   \<and> (\<exists>d'. dev_write env_ok full_device blocking_session 0 [1] 1
             = Some (d', - ENOSPC) \<and> same_flow_data full_device d' 0)"
proof -
  have b: "in_bounds blocking_session 0"
    by (simp add: in_bounds_def blocking_session_def)
  have t: "0 < timeout blocking_session"
    by (simp add: blocking_session_def)
  have k: "kmalloc (kmalloc_ok (env_ok\<lparr>data_wait := Signalled\<rparr>)) 1" "kmalloc (kmalloc_ok env_ok) 1"
    by (simp_all add: kmalloc_def env_ok_def)
  have l: "snd (try_get_lock (lock_wait (env_ok\<lparr>data_wait := Signalled\<rparr>)) blocking_session 0
             full_device) = 1"
    "snd (try_get_lock (lock_wait env_ok) blocking_session 0 full_device) = 1"
    by (simp_all add: sync_defs full_device_eq init_module_def init_object_def
        blocking_session_def)
  have f: "total_free_bytes (objects full_device 0) (priority blocking_session) = 0"
    by (simp add: full_device_eq blocking_session_def)
  have w: "data_wait (env_ok\<lparr>data_wait := Signalled\<rparr>) = Expired
           \<or> data_wait (env_ok\<lparr>data_wait := Signalled\<rparr>) = Signalled"
    "data_wait env_ok = Expired \<or> data_wait env_ok = Signalled"
    by (simp_all add: env_ok_def)
  show ?thesis
    using dev_write_failed_wait [OF b t k(1) l(1) f w(1), of "[1]"]
      dev_write_failed_wait [OF b t k(2) l(2) f w(2), of "[1]"] b t f
    by simp
qed

subsection \<open>A write of no bytes\<close>

text \<open>
  \<^verbatim>\<open>dev_write\<close> looks at \<^verbatim>\<open>total_free_bytes\<close> before it looks at the length: on
  the full device a non-blocking write of length 0 returns \<^verbatim>\<open>-ENOSPC\<close>.
\<close>

lemma dev_write_empty_on_full_flow:
  "total_free_bytes (objects full_device 0) 1 = 0 \<and> timeout high_session = 0
   \<and> map_option snd (dev_write env_ok full_device high_session 0 [] 0) = Some (- ENOSPC)"
  by (simp add: full_device_eq dev_write_def in_bounds_def high_session_def env_ok_def kmalloc_def
      copy_from_user_def dev_write_locked_def sync_defs Let_def init_module_def init_object_def)

lemma seven_write:
  "write_pages (\<lambda>k. True) 4096 (replicate 4096 7) [new_page] = Some (4096, [seven_page])"
  by (simp add: write_pages_def new_page_def Let_def memcpy_def seven_page_def
      copy_loop.simps)

lemma page_device_write:
  "dev_write env_ok init_module high_session 0 (replicate 4096 7) 4096 = Some (page_device, 4096)"
  by (simp add: page_device_def dev_write_def in_bounds_def high_session_def env_ok_def
      kmalloc_def copy_from_user_def sync_defs dev_write_locked_def dev_write_high_def
      write_data_def Let_def init_module_def init_object_def seven_write ulong_of_def)

lemma page_device_eq:
  "page_device = init_module
     \<lparr>objects := (objects init_module)(0 := init_object
         \<lparr>operation_synchronizer := (operation_synchronizer init_object)(1 := False),
          valid_bytes := (valid_bytes init_object)(1 := 4096),
          total_free_bytes := (total_free_bytes init_object)(1 := 16384),
          list_heads := (list_heads init_object)(1 := [seven_page])\<rparr>),
      high_data_count := (high_data_count init_module)(0 := 4096),
      sync_trace := [Mutex_lock 0 1, Mutex_unlock 0 1, Wake_up 0 1]\<rparr>"
  by (simp add: page_device_def dev_write_def in_bounds_def high_session_def env_ok_def
      kmalloc_def copy_from_user_def sync_defs dev_write_locked_def dev_write_high_def
      write_data_def Let_def init_module_def init_object_def seven_write ulong_of_def)

text \<open>
  C7 on the code: after \<^verbatim>\<open>init_module\<close> and one write of \<^verbatim>\<open>OBJECT_MAX_SIZE\<close> bytes
  to the high priority flow of minor 0, which returns \<^verbatim>\<open>OBJECT_MAX_SIZE\<close>, the flow
  has 16384 free bytes, its mutex is free and its list is one full page. A write of
  length 0 to this flow does not return 0: the second walk of \<^verbatim>\<open>write_data\<close> passes
  the full page and dereferences the \<^verbatim>\<open>NULL\<close> that follows it.
\<close>

theorem dev_write_empty_after_full_page:
  "reachable page_device
   \<and> dev_write env_ok init_module high_session 0 (replicate 4096 7) 4096
       = Some (page_device, 4096)
   \<and> total_free_bytes (objects page_device 0) 1 = 16384
   \<and> operation_synchronizer (objects page_device 0) 1 = False
   \<and> list_heads (objects page_device 0) 1 = [seven_page]
   \<and> write_pages (page_alloc env_ok) 0 [] [seven_page] = None
   \<and> dev_write env_ok page_device high_session 0 [] 0 = None"
proof -
  have "exec (Write env_ok high_session 0 (replicate 4096 7) 4096) init_module = Some page_device"
    by (simp add: page_device_write)
  then have r: "reachable page_device"
    by (rule reachable.step [OF reachable.init])
  have w: "write_pages (page_alloc env_ok) 0 [] [seven_page] = None"
    by (simp add: write_pages_def seven_page_def Let_def)
  have n: "dev_write env_ok page_device high_session 0 [] 0 = None"
    using w
    by (simp add: dev_write_def in_bounds_def high_session_def env_ok_def kmalloc_def
        copy_from_user_def sync_defs dev_write_locked_def dev_write_high_def write_data_def
        Let_def page_device_eq init_module_def init_object_def)
  show ?thesis
    using r page_device_write w n by (simp add: page_device_eq init_module_def init_object_def)
qed

subsection \<open>Wake-ups\<close>

text \<open>
  C8 on the code: a read on the empty high priority flow, by a session with a timeout,
  takes the mutex, releases it, sleeps until the timeout and returns 0. The mutex has
  been released and no \<^verbatim>\<open>wake_up_interruptible\<close> was issued.
\<close>

theorem dev_read_timeout_without_wake_up:
  "map_option (sync_trace \<circ> fst) (dev_read env_ok init_module blocking_session 0 [1, 2, 3, 4] 4)
     = Some [Mutex_lock 0 1, Mutex_unlock 0 1, Sleep 0 1 WAIT_READ]
   \<and> map_option (fst \<circ> snd) (dev_read env_ok init_module blocking_session 0 [1, 2, 3, 4] 4) = Some 0"
  by (simp add: dev_read_def clear_user_def in_bounds_def blocking_session_def env_ok_def
      wait_for_flow_def try_wait_for_data_def add_wait_data_def sync_defs Let_def
      init_module_def init_object_def)


subsection \<open>The destination buffer of a read\<close>

lemma length_memcpy:
  "off + length src \<le> length dst \<Longrightarrow> length (memcpy dst off src) = length dst"
  by (simp add: memcpy_def)

lemma read_loop_buffer_aux:
  assumes "read_loop len tb tot k pre ps = Some y"
  shows "list_all page_ok ps \<longrightarrow> 0 \<le> tot \<longrightarrow> nat tot + len \<le> length tb \<longrightarrow>
   length (fst y) = length tb \<and> tot \<le> fst (snd y) \<and> fst (snd y) \<le> tot + int len"
proof (rule read_loop.raw_induct [where P = "\<lambda>len tb tot k pre ps y.
    list_all page_ok ps \<longrightarrow> 0 \<le> tot \<longrightarrow> nat tot + len \<le> length tb \<longrightarrow>
    length (fst y) = length tb \<and> tot \<le> fst (snd y) \<and> fst (snd y) \<le> tot + int len",
    OF _ assms], goal_cases)
  case (1 read_loop len tb tot k pre ps y)
  have ih: "\<And>len tb tot k pre ps. read_loop len tb tot k pre ps = Some y \<Longrightarrow>
     list_all page_ok ps \<Longrightarrow> 0 \<le> tot \<Longrightarrow> nat tot + len \<le> length tb \<Longrightarrow>
     length (fst y) = length tb \<and> tot \<le> fst (snd y) \<and> fst (snd y) \<le> tot + int len"
    using 1(1) by blast
  show ?case
  proof (intro impI)
  assume a3: "list_all page_ok ps" and a4: "0 \<le> tot" and a5: "nat tot + len \<le> length tb"
  show "length (fst y) = length tb \<and> tot \<le> fst (snd y) \<and> fst (snd y) \<le> tot + int len"
  proof (cases "0 < len")
    case False
    with 1(2) show ?thesis by auto
  next
    case True
    then obtain obj rest where ps: "ps = obj # rest"
      using 1(2) by (cases ps) auto
    from a3 ps have ok: "page_ok obj" and okr: "list_all page_ok rest" by auto
    define ltr where "ltr = (if size_t_of (record_length obj - read_offset obj) \<le> len
                     then record_length obj - read_offset obj else int len)"
    have sz: "size_t_of (record_length obj - read_offset obj) = nat (record_length obj - read_offset obj)"
      using ok by (simp add: page_ok_def)
    have l0: "0 \<le> ltr" and l1: "nat ltr \<le> len" and l2: "read_offset obj + ltr \<le> record_length obj"
      using ok sz by (auto simp: ltr_def page_ok_def)
    define chunk where "chunk = take (nat ltr) (drop (nat (read_offset obj)) (stream_content obj))"
    have lc: "length chunk \<le> nat ltr" by (simp add: chunk_def)
    define tb1 where "tb1 = memcpy tb (nat tot) chunk"
    have ltb: "length tb1 = length tb"
      unfolding tb1_def using lc l1 a5 by (intro length_memcpy) linarith
    define obj1 where "obj1 = obj\<lparr>read_offset := read_offset obj + ltr\<rparr>"
    have ok1: "page_ok obj1" using ok l0 l2 by (simp add: obj1_def page_ok_def)
    have tot1: "0 \<le> tot + ltr" "nat (tot + ltr) + (len - nat ltr) \<le> length tb1"
      using a4 a5 l0 l1 ltb by auto
    have step: "(if read_offset obj1 = OBJECT_MAX_SIZE
                 then read_loop (len - nat ltr) tb1 (tot + ltr) (Suc k) (pre @ [obj1]) rest
                 else read_loop (len - nat ltr) tb1 (tot + ltr) k pre (obj1 # rest)) = Some y"
      using 1(2) True ps unfolding ltr_def chunk_def tb1_def obj1_def
      by (simp add: Let_def split del: if_split)
    show ?thesis
    proof (cases "read_offset obj1 = OBJECT_MAX_SIZE")
      case True
      with step have "read_loop (len - nat ltr) tb1 (tot + ltr) (Suc k) (pre @ [obj1]) rest = Some y"
        by simp
      from ih [OF this okr tot1] show ?thesis using ltb l0 l1 by auto
    next
      case False
      with step have "read_loop (len - nat ltr) tb1 (tot + ltr) k pre (obj1 # rest) = Some y"
        by simp
      from ih [OF this _ tot1] ok1 okr show ?thesis using ltb l0 l1 by auto
    qed
  qed
  qed
qed


lemma copy_to_user_prefix:
  assumes "n \<le> length src" and "n \<le> len" and "len \<le> length b" and "take len b = replicate len 0"
    and "copy_to_user b src n = (ret, b')"
  shows "ret = 0 \<and> length b' = length b \<and> take n b' = take n src
         \<and> drop n (take len b') = replicate (len - n) 0 \<and> drop len b' = drop len b"
proof -
  have b': "b' = take n src @ drop n b" and r: "ret = 0"
    using assms by (auto simp: copy_to_user_def Let_def min_def)
  have "drop n (take len b') = drop n (take len b)"
    using assms(1,2) by (simp add: b' drop_take)
  also have "\<dots> = replicate (len - n) 0" using assms(4) by simp
  finally show ?thesis using assms(1,2,3) by (simp add: b' r)
qed

lemma dev_read_locked_zero_fill:
  assumes "dev_read_locked e s m b len d = Some (d', r, b')"
    and "take len b = replicate len 0" and "len \<le> length b"
    and "list_all page_ok (list_heads (objects d m) (priority s))"
  shows "length b' = length b \<and> r \<le> int len
         \<and> drop (nat r) (take len b') = replicate (len - nat r) 0 \<and> drop len b' = drop len b"
proof (cases "valid_bytes (objects d m) (priority s) = 0")
  case True
  with assms show ?thesis by (auto simp: dev_read_locked_def)
next
  case False
  define len1 where "len1 = (if size_t_of (valid_bytes (objects d m) (priority s)) < len
                     then size_t_of (valid_bytes (objects d m) (priority s)) else len)"
  have l1: "len1 \<le> len" by (simp add: len1_def)
  show ?thesis
  proof (cases "kmalloc (kmalloc_ok e) len1")
    case False
    with assms \<open>valid_bytes (objects d m) (priority s) \<noteq> 0\<close> show ?thesis
      by (auto simp: dev_read_locked_def Let_def len1_def)
  next
    case True
    obtain tb tot k pages where
      rl: "read_loop len1 (replicate len1 0) 0 0 [] (list_heads (objects d m) (priority s))
           = Some (tb, tot, k, pages)"
      using assms(1) True \<open>valid_bytes (objects d m) (priority s) \<noteq> 0\<close>
      unfolding dev_read_locked_def len1_def
      by (auto simp: Let_def split: option.splits)
    from read_loop_buffer_aux [OF rl] assms(4)
    have tb: "length tb = len1" and t0: "0 \<le> tot" and t1: "tot \<le> int len1" by auto
    obtain ret b1 where c: "copy_to_user b tb (nat tot) = (ret, b1)"
      by (cases "copy_to_user b tb (nat tot)") auto
    have res: "r = tot - int ret" "b' = b1"
      using assms(1) True \<open>valid_bytes (objects d m) (priority s) \<noteq> 0\<close> rl c
      unfolding dev_read_locked_def len1_def
      by (auto simp: Let_def)
    have "nat tot \<le> length tb" "nat tot \<le> len" using tb t0 t1 l1 by auto
    from copy_to_user_prefix [OF this assms(3) assms(2) c] res t0 t1 l1
    show ?thesis by auto
  qed
qed

lemma clear_user_whole:
  "len \<le> length buff \<Longrightarrow> clear_user buff len = (0, replicate len 0 @ drop len buff)"
  by (simp add: clear_user_def Let_def min_def)

lemma hello_write:
  "write_pages (\<lambda>k. True) 5 [104, 101, 108, 108, 111] [new_page]
   = Some (5, [\<lparr>record_length = 5, read_offset = 0,
                  stream_content = [104, 101, 108, 108, 111]\<rparr>])"
  by (simp add: write_pages_def new_page_def Let_def memcpy_def copy_loop.simps)

lemma hello_device_eq:
  "hello_device = init_module
     \<lparr>objects := (objects init_module)(0 := init_object
         \<lparr>operation_synchronizer := (operation_synchronizer init_object)(1 := False),
          valid_bytes := (valid_bytes init_object)(1 := 5),
          total_free_bytes := (total_free_bytes init_object)(1 := 20475),
          list_heads := (list_heads init_object)
             (1 := [\<lparr>record_length = 5, read_offset = 0,
                      stream_content = [104, 101, 108, 108, 111]\<rparr>])\<rparr>),
      high_data_count := (high_data_count init_module)(0 := 5),
      sync_trace := [Mutex_lock 0 1, Mutex_unlock 0 1, Wake_up 0 1]\<rparr>"
  by (simp add: hello_device_def dev_write_def in_bounds_def high_session_def env_ok_def
      kmalloc_def copy_from_user_def sync_defs dev_write_locked_def dev_write_high_def
      write_data_def Let_def init_module_def init_object_def hello_write ulong_of_def)

text \<open>
  C10: \<^verbatim>\<open>dev_read\<close> clears the \<open>len\<close> bytes of the caller's buffer before it looks
  at the device. A read that cannot take the mutex returns -1 and a read of an empty
  flow returns 0, both with \<open>len\<close> zero bytes in the buffer; and whatever a read
  returns, the bytes of the buffer after the first \<open>r\<close> (the value returned, when
  positive) up to \<open>len\<close> are zero and the bytes beyond \<open>len\<close> are untouched.
\<close>

theorem dev_read_zero_fill:
  assumes "len \<le> length buff" and "in_bounds sess_info m"
    and "list_all page_ok (list_heads (objects d m) (priority sess_info))"
  shows "(snd (try_get_lock (lock_wait e) sess_info m d) \<noteq> 1 \<longrightarrow>
           (\<exists>d'. dev_read e d sess_info m buff len
                  = Some (d', - 1, replicate len 0 @ drop len buff)))
       \<and> (snd (try_get_lock (lock_wait e) sess_info m d) = 1
            \<and> valid_bytes (objects d m) (priority sess_info) = 0 \<longrightarrow>
           (\<exists>d'. dev_read e d sess_info m buff len
                  = Some (d', 0, replicate len 0 @ drop len buff)))
       \<and> (\<forall>d' r buff'. dev_read e d sess_info m buff len = Some (d', r, buff') \<longrightarrow>
             length buff' = length buff \<and> r \<le> int len
             \<and> drop (nat r) (take len buff') = replicate (len - nat r) 0
             \<and> drop len buff' = drop len buff)"
proof -
  define b1 where "b1 = replicate len 0 @ drop len buff"
  have cu: "clear_user buff len = (0, b1)"
    using assms(1) by (simp add: clear_user_whole b1_def)
  have b1: "take len b1 = replicate len 0" "len \<le> length b1" "length b1 = length buff"
    "drop len b1 = drop len buff"
    using assms(1) by (simp_all add: b1_def)
  obtain d1 got where l: "try_get_lock (lock_wait e) sess_info m d = (d1, got)"
    by (cases "try_get_lock (lock_wait e) sess_info m d") auto
  note f1 = try_get_lock_frame [OF l, of m]
  have ne: "WAIT_READ \<noteq> WAIT_MUTEX" by simp
  note wc = wait_for_flow_cases [OF ne, of e sess_info m 0 d1]
  have p1: "list_all page_ok (list_heads (objects d1 m) (priority sess_info))"
    using assms(3) f1 by simp
  have locked0: "\<And>x b n. valid_bytes (objects x m) (priority sess_info) = 0 \<Longrightarrow>
      dev_read_locked e sess_info m b n x = Some (unlock_wake m (priority sess_info) x, 0, b)"
    by (simp add: dev_read_locked_def)
  have a: "got \<noteq> 1 \<Longrightarrow> dev_read e d sess_info m buff len = Some (d1, - 1, b1)"
    using assms(2) cu l by (simp add: dev_read_def)
  have b: "got = 1 \<Longrightarrow> valid_bytes (objects d m) (priority sess_info) = 0 \<Longrightarrow>
           \<exists>d'. dev_read e d sess_info m buff len = Some (d', 0, b1)"
  proof -
    assume g: "got = 1" and v: "valid_bytes (objects d m) (priority sess_info) = 0"
    show ?thesis
    proof (cases "0 < timeout sess_info")
      case False
      then show ?thesis using assms(2) cu l g v f1 by (simp add: dev_read_def locked0)
    next
      case True
      from wc show ?thesis
      proof
        assume "\<exists>d'. wait_for_flow e sess_info m WAIT_READ 0 d1 = Inl (d', 0)"
        then show ?thesis using assms(2) cu l g v f1 True by (auto simp: dev_read_def)
      next
        assume "\<exists>d'. wait_for_flow e sess_info m WAIT_READ 0 d1 = Inr d'"
        then obtain d2 where w: "wait_for_flow e sess_info m WAIT_READ 0 d1 = Inr d2" by blast
        note f2 = wait_for_flow_frame [OF w, of d2 m]
        show ?thesis using assms(2) cu l g v f1 f2 True w by (simp add: dev_read_def locked0)
      qed
    qed
  qed
  have c: "\<And>d' r buff'. dev_read e d sess_info m buff len = Some (d', r, buff') \<Longrightarrow>
             length buff' = length buff \<and> r \<le> int len
             \<and> drop (nat r) (take len buff') = replicate (len - nat r) 0
             \<and> drop len buff' = drop len buff"
  proof -
    fix d' r buff'
    assume h: "dev_read e d sess_info m buff len = Some (d', r, buff')"
    have early: "\<And>x. x \<le> 0 \<Longrightarrow> r = x \<Longrightarrow> buff' = b1 \<Longrightarrow>
             length buff' = length buff \<and> r \<le> int len
             \<and> drop (nat r) (take len buff') = replicate (len - nat r) 0
             \<and> drop len buff' = drop len buff"
      using b1 by auto
    have late: "\<And>x. list_all page_ok (list_heads (objects x m) (priority sess_info)) \<Longrightarrow>
             dev_read_locked e sess_info m b1 len x = Some (d', r, buff') \<Longrightarrow>
             length buff' = length buff \<and> r \<le> int len
             \<and> drop (nat r) (take len buff') = replicate (len - nat r) 0
             \<and> drop len buff' = drop len buff"
    proof -
      fix x
      assume p: "list_all page_ok (list_heads (objects x m) (priority sess_info))"
        and q: "dev_read_locked e sess_info m b1 len x = Some (d', r, buff')"
      from dev_read_locked_zero_fill [OF q b1(1) b1(2) p] b1(3,4)
      show "length buff' = length buff \<and> r \<le> int len
             \<and> drop (nat r) (take len buff') = replicate (len - nat r) 0
             \<and> drop len buff' = drop len buff"
        by simp
    qed
    show "length buff' = length buff \<and> r \<le> int len
             \<and> drop (nat r) (take len buff') = replicate (len - nat r) 0
             \<and> drop len buff' = drop len buff"
    proof (cases "got = 1")
      case False
      with a h have "r = - 1" "buff' = b1" by auto
      then show ?thesis using early [of "- 1"] by simp
    next
      case g: True
      show ?thesis
      proof (cases "valid_bytes (objects d1 m) (priority sess_info) = 0 \<and> 0 < timeout sess_info")
        case False
        then have "(if valid_bytes (objects d1 m) (priority sess_info) = 0 \<and> 0 < timeout sess_info
                    then (case wait_for_flow e sess_info m WAIT_READ 0 d1 of
                            Inl (d2, r) \<Rightarrow> Some (d2, r, b1)
                          | Inr d2 \<Rightarrow> dev_read_locked e sess_info m b1 len d2)
                    else dev_read_locked e sess_info m b1 len d1)
                   = dev_read_locked e sess_info m b1 len d1"
          by (rule if_not_P)
        then have "dev_read_locked e sess_info m b1 len d1 = Some (d', r, buff')"
          using h assms(2) cu l g by (simp add: dev_read_def)
        from late [OF p1 this] show ?thesis .
      next
        case True
        from wc show ?thesis
        proof
          assume "\<exists>x. wait_for_flow e sess_info m WAIT_READ 0 d1 = Inl (x, 0)"
          then have "r = 0" "buff' = b1"
            using h assms(2) cu l g True by (auto simp: dev_read_def)
          then show ?thesis using early [of 0] by simp
        next
          assume "\<exists>x. wait_for_flow e sess_info m WAIT_READ 0 d1 = Inr x"
          then obtain d2 where w: "wait_for_flow e sess_info m WAIT_READ 0 d1 = Inr d2" by blast
          note f2 = wait_for_flow_frame [OF w, of d2 m]
          have "dev_read_locked e sess_info m b1 len d2 = Some (d', r, buff')"
            using h assms(2) cu l g True w by (simp add: dev_read_def)
          moreover have "list_all page_ok (list_heads (objects d2 m) (priority sess_info))"
            using p1 f2 by simp
          ultimately show ?thesis using late by blast
        qed
      qed
    qed
  qed
  have s: "snd (try_get_lock (lock_wait e) sess_info m d) = got" using l by simp
  show ?thesis
  proof (intro conjI impI allI)
    assume "snd (try_get_lock (lock_wait e) sess_info m d) \<noteq> 1"
    then show "\<exists>d'. dev_read e d sess_info m buff len
                  = Some (d', - 1, replicate len 0 @ drop len buff)"
      using a s by (simp add: b1_def)
  next
    assume "snd (try_get_lock (lock_wait e) sess_info m d) = 1
            \<and> valid_bytes (objects d m) (priority sess_info) = 0"
    then show "\<exists>d'. dev_read e d sess_info m buff len
                  = Some (d', 0, replicate len 0 @ drop len buff)"
      using b s by (simp add: b1_def)
  next
    fix d' r buff'
    assume "dev_read e d sess_info m buff len = Some (d', r, buff')"
    from c [OF this] show "length buff' = length buff" by simp
  next
    fix d' r buff'
    assume "dev_read e d sess_info m buff len = Some (d', r, buff')"
    from c [OF this] show "r \<le> int len" by simp
  next
    fix d' r buff'
    assume "dev_read e d sess_info m buff len = Some (d', r, buff')"
    from c [OF this] show "drop (nat r) (take len buff') = replicate (len - nat r) 0" by simp
  next
    fix d' r buff'
    assume "dev_read e d sess_info m buff len = Some (d', r, buff')"
    from c [OF this] show "drop len buff' = drop len buff" by simp
  qed
qed


theorem dev_read_zero_fill_witness:
  "(10::nat) \<le> length (replicate 10 (7::byte)) \<and> in_bounds high_session 0
   \<and> list_all page_ok (list_heads (objects hello_device 0) (priority high_session))
   \<and> (\<exists>d'. dev_read env_ok hello_device high_session 0 (replicate 10 7) 10
             = Some (d', 5, [104, 101, 108, 108, 111, 0, 0, 0, 0, 0]))
   \<and> drop 5 (take 10 [104, 101, 108, 108, 111, 0, 0, 0, 0, 0::byte]) = replicate (10 - 5) 0"
proof -
  have l: "(10::nat) \<le> length (replicate 10 (7::byte))" by simp
  have b: "in_bounds high_session 0"
    by (simp add: in_bounds_def high_session_def)
  have p: "list_all page_ok (list_heads (objects hello_device 0) (priority high_session))"
    by (simp add: hello_device_eq high_session_def page_ok_def)
  have r: "read_loop 5 [0, 0, 0, 0, 0] 0 0 []
             [\<lparr>record_length = 5, read_offset = 0, stream_content = [104, 101, 108, 108, 111]\<rparr>]
           = Some ([104, 101, 108, 108, 111], 5, 0,
               [\<lparr>record_length = 5, read_offset = 5,
                  stream_content = [104, 101, 108, 108, 111]\<rparr>])"
    by (simp add: read_loop.simps memcpy_def)
  have n: "replicate 10 (7::byte) = [7, 7, 7, 7, 7, 7, 7, 7, 7, 7]"
    "replicate 5 (0::byte) = [0, 0, 0, 0, 0]"
    by (simp_all add: numeral_eq_Suc)
  have e: "\<exists>d'. dev_read env_ok hello_device high_session 0 (replicate 10 7) 10
             = Some (d', 5, [104, 101, 108, 108, 111, 0, 0, 0, 0, 0])"
    unfolding n
    by (simp add: dev_read_def clear_user_def in_bounds_def high_session_def env_ok_def
        sync_defs dev_read_locked_def Let_def hello_device_eq init_module_def init_object_def
        kmalloc_def r n copy_to_user_def)
  then obtain d' where e': "dev_read env_ok hello_device high_session 0 (replicate 10 7) 10
             = Some (d', 5, [104, 101, 108, 108, 111, 0, 0, 0, 0, 0])" by blast
  from dev_read_zero_fill [OF l b p, of env_ok] e'
  have "drop (nat 5) (take 10 [104, 101, 108, 108, 111, 0, 0, 0, 0, 0::byte])
        = replicate (10 - nat 5) 0"
    by blast
  then show ?thesis using l b p e by simp
qed

subsection \<open>The capacity of a flow\<close>

lemma capacity_eq_frame:
  "valid_bytes (objects d' m) = valid_bytes (objects d m) \<Longrightarrow>
   total_free_bytes (objects d' m) = total_free_bytes (objects d m) \<Longrightarrow>
   system_wq d' = system_wq d \<Longrightarrow> capacity_eq d' m f = capacity_eq d m f"
  by (simp add: capacity_eq_def reserved_def)

lemma capacity_try_get_lock:
  "try_get_lock w s m d = (d1, got) \<Longrightarrow> capacity_eq d1 m' f = capacity_eq d m' f"
  using try_get_lock_frame [of w s m d d1 got m'] by (intro capacity_eq_frame) simp_all

lemma capacity_unlock_wake:
  "capacity_eq (unlock_wake m p d) m' f = capacity_eq d m' f"
  using unlock_wake_frame [of m p d m'] by (intro capacity_eq_frame) simp_all

lemma capacity_wait_inl:
  "wait_for_flow e s m ev x d = Inl (d', v) \<Longrightarrow> capacity_eq d' m' f = capacity_eq d m' f"
  using wait_for_flow_frame [of e s m ev x d "Inl (d', v)" d' m']
  by (intro capacity_eq_frame) simp_all

lemma capacity_wait_inr:
  "wait_for_flow e s m ev x d = Inr d' \<Longrightarrow> capacity_eq d' m' f = capacity_eq d m' f"
  using wait_for_flow_frame [of e s m ev x d "Inr d'" d' m']
  by (intro capacity_eq_frame) simp_all

lemma capacity_write_low:
  "dev_write_low e m b n d = (d', r) \<Longrightarrow> capacity_eq d m' f \<Longrightarrow> capacity_eq d' m' f"
  by (auto simp: dev_write_low_def capacity_eq_def reserved_def sync_defs Let_def
      split: if_splits)

lemma capacity_write_high:
  "dev_write_high e s m b n d = Some (d', r) \<Longrightarrow> capacity_eq d m' f \<Longrightarrow> capacity_eq d' m' f"
  by (auto simp: dev_write_high_def write_data_def capacity_eq_def reserved_def sync_defs Let_def
      split: if_splits option.splits)

lemma capacity_write_locked:
  "dev_write_locked e s m b n d = Some (d', r) \<Longrightarrow> capacity_eq d m' f \<Longrightarrow> capacity_eq d' m' f"
  unfolding dev_write_locked_def Let_def
  by (auto simp: capacity_unlock_wake dest: capacity_write_low capacity_write_high
      split: if_splits)

lemma capacity_dev_write:
  assumes "dev_write e d s m buff len = Some (d', r)" and "capacity_eq d m' f"
  shows "capacity_eq d' m' f"
proof -
  obtain d1 got where l: "try_get_lock (lock_wait e) s m d = (d1, got)"
    by (cases "try_get_lock (lock_wait e) s m d") auto
  have c1: "capacity_eq d1 m' f" using capacity_try_get_lock [OF l] assms(2) by simp
  obtain ret tb where c: "copy_from_user buff len = (ret, tb)"
    by (cases "copy_from_user buff len") auto
  show ?thesis
  proof (cases "wait_for_flow e s m WAIT_WRITE (- ENOSPC) d1")
    case (Inl a)
    then obtain d2 v where w: "wait_for_flow e s m WAIT_WRITE (- ENOSPC) d1 = Inl (d2, v)"
      by (cases a) auto
    from assms(1) l c w c1 capacity_wait_inl [OF w, of m' f] assms(2) show ?thesis
      by (auto simp: dev_write_def Let_def split: if_splits dest: capacity_write_locked)
  next
    case (Inr d2)
    from assms(1) l c Inr c1 capacity_wait_inr [OF Inr, of m' f] assms(2) show ?thesis
      by (auto simp: dev_write_def Let_def split: if_splits dest: capacity_write_locked)
  qed
qed

lemma capacity_read_locked:
  "dev_read_locked e s m b n d = Some (d', r, b') \<Longrightarrow> capacity_eq d m' f \<Longrightarrow> capacity_eq d' m' f"
  by (auto simp: dev_read_locked_def capacity_eq_def reserved_def sync_defs Let_def
      split: if_splits option.splits prod.splits)

lemma capacity_dev_read:
  assumes "dev_read e d s m buff len = Some (d', r, b')" and "capacity_eq d m' f"
  shows "capacity_eq d' m' f"
proof -
  obtain d1 got where l: "try_get_lock (lock_wait e) s m d = (d1, got)"
    by (cases "try_get_lock (lock_wait e) s m d") auto
  have c1: "capacity_eq d1 m' f" using capacity_try_get_lock [OF l] assms(2) by simp
  obtain ret tb where c: "clear_user buff len = (ret, tb)"
    by (cases "clear_user buff len") auto
  show ?thesis
  proof (cases "wait_for_flow e s m WAIT_READ 0 d1")
    case (Inl a)
    then obtain d2 v where w: "wait_for_flow e s m WAIT_READ 0 d1 = Inl (d2, v)"
      by (cases a) auto
    from assms(1) l c w c1 capacity_wait_inl [OF w, of m' f] assms(2) show ?thesis
      by (auto simp: dev_read_def Let_def split: if_splits dest: capacity_read_locked)
  next
    case (Inr d2)
    from assms(1) l c Inr c1 capacity_wait_inr [OF Inr, of m' f] assms(2) show ?thesis
      by (auto simp: dev_read_def Let_def split: if_splits dest: capacity_read_locked)
  qed
qed

lemma capacity_dev_ioctl:
  assumes "dev_ioctl e d s m c param = Some (d', s', r)" and "capacity_eq d m' f"
  shows "capacity_eq d' m' f"
proof -
  obtain d1 got where l: "try_get_lock (lock_wait e) s m d = (d1, got)"
    by (cases "try_get_lock (lock_wait e) s m d") auto
  have c1: "capacity_eq d1 m' f" using capacity_try_get_lock [OF l] assms(2) by simp
  have c2: "\<And>x. capacity_eq (d1\<lparr>enable_disable_array := x\<rparr>) m' f"
    using c1 by (auto simp: capacity_eq_def reserved_def split: if_splits)
  from assms(1) l c1 c2 show ?thesis
    by (auto simp: dev_ioctl_def Let_def capacity_unlock_wake split: if_splits)
qed

lemma capacity_do_wq_write:
  assumes "do_wq_write e job d = Some d'"
    and "valid_bytes (objects d m') f + total_free_bytes (objects d m') f
         + reserved (d\<lparr>system_wq := job # system_wq d\<rparr>) m' f = OBJECT_MAX_SIZE * MAX_PAGES"
  shows "capacity_eq d' m' f"
  using assms
  by (auto simp: do_wq_write_def write_data_def capacity_eq_def reserved_def sync_defs Let_def
      split: if_splits option.splits)

lemma capacity_run_work:
  assumes "run_work e d = Some d'" and "capacity_eq d m' f"
  shows "capacity_eq d' m' f"
proof (cases "system_wq d")
  case Nil
  with assms show ?thesis by (simp add: run_work_def)
next
  case (Cons job rest)
  with assms(1) have w: "do_wq_write e job (d\<lparr>system_wq := rest\<rparr>) = Some d'"
    by (simp add: run_work_def)
  show ?thesis
    by (rule capacity_do_wq_write [OF w])
      (use assms(2) Cons in \<open>auto simp: capacity_eq_def reserved_def split: if_splits\<close>)
qed

lemma capacity_exec:
  "exec c d = Some d' \<Longrightarrow> capacity_eq d m f \<Longrightarrow> capacity_eq d' m f"
proof (cases c)
  case (Write e s m' buff len)
  assume "exec c d = Some d'" and "capacity_eq d m f"
  with Write show ?thesis by (auto dest: capacity_dev_write)
next
  case (Read e s m' buff len)
  assume "exec c d = Some d'" and "capacity_eq d m f"
  with Read show ?thesis by (auto dest: capacity_dev_read)
next
  case (Ioctl e s m' cmd param)
  assume "exec c d = Some d'" and "capacity_eq d m f"
  with Ioctl show ?thesis by (auto dest: capacity_dev_ioctl)
next
  case (Work e)
  assume "exec c d = Some d'" and "capacity_eq d m f"
  with Work show ?thesis by (auto dest: capacity_run_work)
qed (auto simp: dev_release_def)

lemma capacity_init: "capacity_eq init_module m f"
  by (simp add: capacity_eq_def reserved_def init_module_def init_object_def)

lemma abcd_device_eq:
  "abcd_device = init_module
     \<lparr>objects := (objects init_module)(0 := init_object
         \<lparr>operation_synchronizer := (operation_synchronizer init_object)(0 := False),
          total_free_bytes := (total_free_bytes init_object)(0 := 20476)\<rparr>),
      system_wq := [\<lparr>wq_data = [97, 98, 99, 100], wq_minor = 0, wq_len = 4\<rparr>],
      sync_trace := [Mutex_lock 0 0, Mutex_unlock 0 0, Wake_up 0 0]\<rparr>"
  by (simp add: abcd_device_def dev_write_def in_bounds_def low_session_def env_ok_def kmalloc_def
      copy_from_user_def dev_write_locked_def dev_write_low_def sync_defs Let_def
      init_module_def init_object_def)

lemma abcd_write:
  "dev_write env_ok init_module low_session 0 [97, 98, 99, 100] 4 = Some (abcd_device, 4)"
  by (simp add: abcd_device_def dev_write_def in_bounds_def low_session_def env_ok_def kmalloc_def
      copy_from_user_def dev_write_locked_def dev_write_low_def sync_defs Let_def
      init_module_def init_object_def)

text \<open>
  C1, as the specification states it, fails: after a write of four bytes to the low
  priority flow, accepted and not yet copied by the work queue, the flow has no valid
  byte and 20476 free bytes.
\<close>

theorem low_write_breaks_capacity_sum:
  "valid_bytes (objects abcd_device 0) 0 = 0
   \<and> total_free_bytes (objects abcd_device 0) 0 = 20476
   \<and> valid_bytes (objects abcd_device 0) 0 + total_free_bytes (objects abcd_device 0) 0
       \<noteq> OBJECT_MAX_SIZE * MAX_PAGES"
  by (simp add: abcd_device_eq init_module_def init_object_def)

text \<open>
  C1, amended: in every state of the device, for every minor and flow, the valid bytes,
  the free bytes and the bytes reserved by deferred writes not yet executed add up to
  \<^verbatim>\<open>OBJECT_MAX_SIZE*MAX_PAGES\<close>. The high priority flow has no reserved bytes.
\<close>

theorem capacity_balance:
  assumes "reachable d"
  shows "valid_bytes (objects d m) f + total_free_bytes (objects d m) f + reserved d m f
         = OBJECT_MAX_SIZE * MAX_PAGES \<and> reserved d m 1 = 0"
proof -
  from assms have "capacity_eq d m f"
    by (induction rule: reachable.induct) (auto intro: capacity_init capacity_exec)
  then show ?thesis by (simp add: capacity_eq_def reserved_def)
qed

theorem capacity_balance_witness:
  "reachable abcd_device
   \<and> valid_bytes (objects abcd_device 0) 0 + total_free_bytes (objects abcd_device 0) 0
       + reserved abcd_device 0 0 = OBJECT_MAX_SIZE * MAX_PAGES
   \<and> reserved abcd_device 0 0 = 4"
proof -
  have "exec (Write env_ok low_session 0 [97, 98, 99, 100] 4) init_module = Some abcd_device"
    by (simp add: abcd_write)
  then have r: "reachable abcd_device"
    using reachable.init reachable.step by blast
  have "reserved abcd_device 0 0 = 4"
    by (simp add: reserved_def abcd_device_eq)
  then show ?thesis using capacity_balance [OF r, of 0 0] r by simp
qed

subsection \<open>Valid bytes and the bytes in the list\<close>

lemma queued_device_eq:
  "queued_device = init_module
     \<lparr>objects := (objects init_module)(0 := init_object
         \<lparr>operation_synchronizer := (operation_synchronizer init_object)(0 := False),
          total_free_bytes := (total_free_bytes init_object)(0 := 16383)\<rparr>),
      system_wq := [\<lparr>wq_data = replicate 4097 0, wq_minor = 0, wq_len = 4097\<rparr>],
      sync_trace := [Mutex_lock 0 0, Mutex_unlock 0 0, Wake_up 0 0]\<rparr>"
  by (simp add: queued_device_def dev_write_def in_bounds_def low_session_def env_ok_def kmalloc_def
      copy_from_user_def dev_write_locked_def dev_write_low_def sync_defs Let_def
      init_module_def init_object_def)

text \<open>
  C2 on the code: a write of 4097 bytes to the low priority flow is accepted; when the
  work queue runs it and the page needed beyond the first cannot be allocated,
  \<^verbatim>\<open>write_data\<close> copies nothing, and \<^verbatim>\<open>do_wq_write\<close> still adds 4097 to the valid
  bytes of a flow whose list holds no byte.
\<close>

theorem do_wq_write_counts_bytes_not_copied:
  "map_option snd (dev_write env_ok init_module low_session 0 (replicate 4097 0) 4097) = Some 4097
   \<and> valid_bytes (objects (the (run_work env_no_pages queued_device)) 0) 0 = 4097
   \<and> stored (list_heads (objects (the (run_work env_no_pages queued_device)) 0) 0) = 0"
  by (simp add: queued_device_eq run_work_def do_wq_write_def write_data_def write_pages_def
      env_no_pages_def env_ok_def sync_defs Let_def init_module_def init_object_def new_page_def
      stored_def dev_write_def in_bounds_def low_session_def kmalloc_def
      copy_from_user_def dev_write_locked_def dev_write_low_def alloc_records.simps)

subsection \<open>Read cursors\<close>

lemma cursor_inv_Nil [simp]: "cursor_inv []"
  by (simp add: cursor_inv_def)

lemma cursor_inv_alt:
  "cursor_inv a = (list_all (\<lambda>x. x = 0) (tl (map read_offset a))
                   \<and> list_all (\<lambda>x. x \<noteq> OBJECT_MAX_SIZE) (map read_offset a))"
  by (cases a) (auto simp: cursor_inv_def list_all_iff)

lemma cursor_inv_offsets:
  "map read_offset a = map read_offset b \<Longrightarrow> cursor_inv a = cursor_inv b"
  by (simp add: cursor_inv_alt)

lemma cursor_inv_extend:
  "cursor_inv (a @ b) \<Longrightarrow> a \<noteq> [] \<Longrightarrow> \<forall>p\<in>set c. read_offset p = 0 \<Longrightarrow> cursor_inv (a @ c)"
  by (cases a) (auto simp: cursor_inv_def)

lemma find_write_page_split:
  "find_write_page pre t ns = (a, b, c) \<Longrightarrow> a @ b # c = pre @ t # ns"
  by (induction ns arbitrary: pre t) (auto split: if_splits)

lemma alloc_records_new:
  "alloc_records alloc k temp_len news = (ok, out) \<Longrightarrow>
   \<forall>p\<in>set news. read_offset p = 0 \<Longrightarrow> \<forall>p\<in>set out. read_offset p = 0"
proof (induction alloc k temp_len news rule: alloc_records.induct)
  case (1 alloc k temp_len news)
  note e = alloc_records.simps [of alloc k temp_len news]
  show ?case
  proof (cases "0 < temp_len \<and> alloc k")
    case True
    then have "alloc_records alloc (Suc k) (temp_len - OBJECT_MAX_SIZE) (news @ [new_page])
               = (ok, out)"
      using 1(2) e by simp
    moreover have "\<forall>p\<in>set (news @ [new_page]). read_offset p = 0"
      using 1(3) by (simp add: new_page_def)
    ultimately show ?thesis using 1(1) True by blast
  next
    case False
    then have "out = news" using 1(2) e by (auto split: if_splits)
    then show ?thesis using 1(3) by simp
  qed
qed

lemma skip_full_split:
  "skip_full pre ps = Some (a, b) \<Longrightarrow> a @ b = pre @ ps"
  by (induction pre ps rule: skip_full.induct) (auto split: if_splits)

lemma copy_loop_offsets:
  "copy_loop len buffer tot pre ps = Some (r, out) \<Longrightarrow>
   map read_offset out = map read_offset (pre @ ps)"
proof (induction len buffer tot pre ps rule: copy_loop.induct)
  case (1 len buffer tot pre ps)
  show ?case
  proof (cases "0 < len")
    case False
    with 1(3) show ?thesis by (simp add: copy_loop.simps)
  next
    case True
    with 1(3) obtain t rest where ps: "ps = t # rest"
      by (cases ps) (auto simp: copy_loop.simps)
    show ?thesis
      using 1(1) [OF True ps refl refl] 1(2) [OF True ps refl refl] 1(3) True ps
      by (subst (asm) copy_loop.simps) (auto simp: Let_def split: if_splits)
  qed
qed

lemma write_pages_cursor:
  assumes "write_pages alloc len buffer pages = Some (r, out)" and "cursor_inv pages"
  shows "cursor_inv out"
proof (cases "pages = [] \<and> \<not> alloc 0")
  case True
  with assms show ?thesis by (simp add: write_pages_def)
next
  case False
  define pages1 where "pages1 = (if pages = [] then [new_page] else pages)"
  have p1: "pages1 \<noteq> []" "cursor_inv pages1"
    using assms(2) by (auto simp: pages1_def cursor_inv_def new_page_def)
  obtain pre t post where f: "find_write_page [] (hd pages1) (tl pages1) = (pre, t, post)"
    by (cases "find_write_page [] (hd pages1) (tl pages1)") auto
  from find_write_page_split [OF f] p1(1) have sp: "pre @ t # post = pages1" by simp
  have cl: "\<And>x b c y z. skip_full [] x = Some (b, c) \<Longrightarrow> cursor_inv x \<Longrightarrow>
      copy_loop len buffer 0 b c = Some (y, z) \<Longrightarrow> cursor_inv z"
    using skip_full_split copy_loop_offsets cursor_inv_offsets by (metis append_Nil)
  show ?thesis
  proof (cases "(OBJECT_MAX_SIZE - record_length t) - int len < 0")
    case no: False
    from assms(1) False no f
    have res: "(case skip_full [] pages1 of None \<Rightarrow> None
                | Some (pre2, ps2) \<Rightarrow> copy_loop len buffer 0 pre2 ps2) = Some (r, out)"
      unfolding write_pages_def Let_def pages1_def [symmetric]
      by (simp split del: if_split)
    then obtain pre2 ps2 where "skip_full [] pages1 = Some (pre2, ps2)"
        "copy_loop len buffer 0 pre2 ps2 = Some (r, out)"
      by (auto split: option.splits)
    from cl [OF this(1) p1(2) this(2)] show ?thesis .
  next
    case yes: True
    obtain ok news where a: "alloc_records alloc (if pages = [] then 1 else 0)
          (int len - (OBJECT_MAX_SIZE - record_length t)) [] = (ok, news)"
      by (cases "alloc_records alloc (if pages = [] then 1 else 0)
          (int len - (OBJECT_MAX_SIZE - record_length t)) []") auto
    from alloc_records_new [OF a] have n: "\<forall>p\<in>set news. read_offset p = 0" by simp
    define pages2 where "pages2 = pre @ t # (if news = [] then post else news)"
    have "cursor_inv ((pre @ [t]) @ news)"
      by (rule cursor_inv_extend [where b = post]) (use p1(2) sp n in auto)
    then have c2: "cursor_inv pages2"
      using p1(2) sp by (auto simp: pages2_def)
    from assms(1) False yes f a
    have res: "(if \<not> ok then Some (- ENOMEM, pages2)
                else (case skip_full [] pages2 of None \<Rightarrow> None
                      | Some (pre2, ps2) \<Rightarrow> copy_loop len buffer 0 pre2 ps2)) = Some (r, out)"
      unfolding write_pages_def Let_def pages1_def [symmetric] pages2_def
      by (simp split del: if_split)
    show ?thesis
    proof (cases ok)
      case False
      with res have "out = pages2" by simp
      with c2 show ?thesis by simp
    next
      case True
      with res obtain pre2 ps2 where "skip_full [] pages2 = Some (pre2, ps2)"
        "copy_loop len buffer 0 pre2 ps2 = Some (r, out)"
        by (auto split: option.splits)
      from cl [OF this(1) c2 this(2)] show ?thesis .
    qed
  qed
qed

lemma read_loop_cursor:
  assumes "read_loop len tb tot k pre ps = Some y"
  shows "k = length pre \<longrightarrow> cursor_inv ps \<longrightarrow>
         cursor_inv (drop (fst (snd (snd y))) (snd (snd (snd y))))"
proof (rule read_loop.raw_induct [where P = "\<lambda>len tb tot k pre ps y.
    k = length pre \<longrightarrow> cursor_inv ps \<longrightarrow>
    cursor_inv (drop (fst (snd (snd y))) (snd (snd (snd y))))", OF _ assms], goal_cases)
  case (1 read_loop len tb tot k pre ps y)
  have ih: "\<And>len tb tot k pre ps. read_loop len tb tot k pre ps = Some y \<Longrightarrow>
     k = length pre \<Longrightarrow> cursor_inv ps \<Longrightarrow>
     cursor_inv (drop (fst (snd (snd y))) (snd (snd (snd y))))"
    using 1(1) by blast
  show ?case
  proof (intro impI)
    assume k: "k = length pre" and c: "cursor_inv ps"
    show "cursor_inv (drop (fst (snd (snd y))) (snd (snd (snd y))))"
    proof (cases "0 < len")
      case False
      with 1(2) k c show ?thesis by auto
    next
      case True
      then obtain obj rest where ps: "ps = obj # rest"
        using 1(2) by (cases ps) auto
      define ltr where "ltr = (if size_t_of (record_length obj - read_offset obj) \<le> len
                       then record_length obj - read_offset obj else int len)"
      define tb1 where "tb1 = memcpy tb (nat tot)
          (take (nat ltr) (drop (nat (read_offset obj)) (stream_content obj)))"
      define obj1 where "obj1 = obj\<lparr>read_offset := read_offset obj + ltr\<rparr>"
      have step: "(if read_offset obj1 = OBJECT_MAX_SIZE
                   then read_loop (len - nat ltr) tb1 (tot + ltr) (Suc k) (pre @ [obj1]) rest
                   else read_loop (len - nat ltr) tb1 (tot + ltr) k pre (obj1 # rest)) = Some y"
        using 1(2) True ps unfolding ltr_def tb1_def obj1_def
        by (simp add: Let_def split del: if_split)
      have rest0: "\<forall>p\<in>set rest. read_offset p = 0"
        using c ps by (simp add: cursor_inv_def)
      show ?thesis
      proof (cases "read_offset obj1 = OBJECT_MAX_SIZE")
        case True
        with step have r: "read_loop (len - nat ltr) tb1 (tot + ltr) (Suc k) (pre @ [obj1]) rest = Some y"
          by simp
        have c1: "cursor_inv rest" using rest0 by (cases rest) (auto simp: cursor_inv_def)
        have k1: "Suc k = length (pre @ [obj1])" using k by simp
        from ih [OF r k1 c1] show ?thesis .
      next
        case False
        with step have r: "read_loop (len - nat ltr) tb1 (tot + ltr) k pre (obj1 # rest) = Some y"
          by simp
        have c1: "cursor_inv (obj1 # rest)" using rest0 False by (simp add: cursor_inv_def)
        from ih [OF r k c1] show ?thesis .
      qed
    qed
  qed
qed

lemma cursor_write_data:
  assumes "write_data alloc len m buffer p d = Some (d', r)"
    and "cursor_inv (flow_pages d m' f)"
  shows "cursor_inv (flow_pages d' m' f)"
  using assms write_pages_cursor [of alloc len buffer "list_heads (objects d m) p"]
  by (auto simp: write_data_def flow_pages_def upd_object_def split: option.splits)

lemma flow_pages_frame:
  "list_heads (objects d' m) = list_heads (objects d m) \<Longrightarrow> flow_pages d' m f = flow_pages d m f"
  by (simp add: flow_pages_def)

lemma cursor_write_locked:
  assumes "dev_write_locked e s m b n d = Some (d', r)"
    and "cursor_inv (flow_pages d m' f)"
  shows "cursor_inv (flow_pages d' m' f)"
proof -
  have low: "\<And>x y. dev_write_low e m b x d = (d', y) \<Longrightarrow> flow_pages d' m' f = flow_pages d m' f"
    by (auto simp: dev_write_low_def flow_pages_def sync_defs Let_def split: if_splits)
  have high: "\<And>x. dev_write_high e s m b x d = Some (d', r) \<Longrightarrow> cursor_inv (flow_pages d' m' f)"
  proof -
    fix x assume "dev_write_high e s m b x d = Some (d', r)"
    then obtain d1 t where w: "write_data (page_alloc e) x m b (priority s) d = Some (d1, t)"
      and l: "list_heads (objects d' m') = list_heads (objects d1 m')"
      by (auto simp: dev_write_high_def sync_defs Let_def split: option.splits)
    from cursor_write_data [OF w assms(2)] l show "cursor_inv (flow_pages d' m' f)"
      by (simp add: flow_pages_def)
  qed
  have un: "flow_pages (unlock_wake m (priority s) d) m' f = flow_pages d m' f"
    by (simp add: flow_pages_def sync_defs)
  from assms show ?thesis
    unfolding dev_write_locked_def Let_def
    by (auto simp: un split: if_splits dest: low high)
qed

lemma cursor_read_locked:
  assumes "dev_read_locked e s m b n d = Some (d', r, b')"
    and "cursor_inv (flow_pages d m' f)"
  shows "cursor_inv (flow_pages d' m' f)"
proof (cases "valid_bytes (objects d m) (priority s) = 0")
  case True
  with assms show ?thesis by (auto simp: dev_read_locked_def flow_pages_def sync_defs Let_def)
next
  case False
  define len1 where "len1 = (if size_t_of (valid_bytes (objects d m) (priority s)) < n
                     then size_t_of (valid_bytes (objects d m) (priority s)) else n)"
  show ?thesis
  proof (cases "kmalloc (kmalloc_ok e) len1")
    case False
    with assms \<open>valid_bytes (objects d m) (priority s) \<noteq> 0\<close> show ?thesis
      by (auto simp: dev_read_locked_def Let_def len1_def flow_pages_def sync_defs)
  next
    case True
    obtain tb tot k pages where
      rl: "read_loop len1 (replicate len1 0) 0 0 [] (list_heads (objects d m) (priority s))
           = Some (tb, tot, k, pages)"
      using assms(1) True \<open>valid_bytes (objects d m) (priority s) \<noteq> 0\<close>
      unfolding dev_read_locked_def len1_def
      by (auto simp: Let_def split: option.splits)
    have res: "list_heads (objects d' m') f
               = (if m' = m \<and> f = priority s then drop k pages else list_heads (objects d m') f)"
      using assms(1) True \<open>valid_bytes (objects d m) (priority s) \<noteq> 0\<close> rl
      unfolding dev_read_locked_def len1_def
      by (auto simp: Let_def sync_defs split: prod.splits if_splits)
    show ?thesis
    proof (cases "m' = m \<and> f = priority s")
      case True
      with assms(2) have "cursor_inv (list_heads (objects d m) (priority s))"
        by (simp add: flow_pages_def)
      with read_loop_cursor [OF rl] have "cursor_inv (drop k pages)" by simp
      with res True show ?thesis by (simp add: flow_pages_def)
    next
      case False
      with res assms(2) show ?thesis by (auto simp: flow_pages_def)
    qed
  qed
qed

lemma pages_try_get_lock:
  "try_get_lock w s m d = (d1, got) \<Longrightarrow> flow_pages d1 m' f = flow_pages d m' f"
  using try_get_lock_frame [of w s m d d1 got m'] by (simp add: flow_pages_def)

lemma pages_wait_inl:
  "wait_for_flow e s m ev x d = Inl (d', v) \<Longrightarrow> flow_pages d' m' f = flow_pages d m' f"
  using wait_for_flow_frame [of e s m ev x d "Inl (d', v)" d' m'] by (simp add: flow_pages_def)

lemma pages_wait_inr:
  "wait_for_flow e s m ev x d = Inr d' \<Longrightarrow> flow_pages d' m' f = flow_pages d m' f"
  using wait_for_flow_frame [of e s m ev x d "Inr d'" d' m'] by (simp add: flow_pages_def)

lemma cursor_dev_write:
  assumes "dev_write e d s m buff len = Some (d', r)" and "cursor_inv (flow_pages d m' f)"
  shows "cursor_inv (flow_pages d' m' f)"
proof -
  obtain d1 got where l: "try_get_lock (lock_wait e) s m d = (d1, got)"
    by (cases "try_get_lock (lock_wait e) s m d") auto
  have c1: "cursor_inv (flow_pages d1 m' f)" using pages_try_get_lock [OF l] assms(2) by simp
  obtain ret tb where c: "copy_from_user buff len = (ret, tb)"
    by (cases "copy_from_user buff len") auto
  show ?thesis
  proof (cases "wait_for_flow e s m WAIT_WRITE (- ENOSPC) d1")
    case (Inl a)
    then obtain d2 v where w: "wait_for_flow e s m WAIT_WRITE (- ENOSPC) d1 = Inl (d2, v)"
      by (cases a) auto
    have c2: "cursor_inv (flow_pages d2 m' f)"
      using c1 pages_wait_inl [OF w, of m' f] by simp
    from assms l c w c1 c2 show ?thesis
      by (auto simp: dev_write_def Let_def split: if_splits dest: cursor_write_locked)
  next
    case (Inr d2)
    have c2: "cursor_inv (flow_pages d2 m' f)"
      using c1 pages_wait_inr [OF Inr, of m' f] by simp
    from assms l c Inr c1 c2 show ?thesis
      by (auto simp: dev_write_def Let_def split: if_splits dest: cursor_write_locked)
  qed
qed

lemma cursor_dev_read:
  assumes "dev_read e d s m buff len = Some (d', r, b')" and "cursor_inv (flow_pages d m' f)"
  shows "cursor_inv (flow_pages d' m' f)"
proof -
  obtain d1 got where l: "try_get_lock (lock_wait e) s m d = (d1, got)"
    by (cases "try_get_lock (lock_wait e) s m d") auto
  have c1: "cursor_inv (flow_pages d1 m' f)" using pages_try_get_lock [OF l] assms(2) by simp
  obtain ret tb where c: "clear_user buff len = (ret, tb)"
    by (cases "clear_user buff len") auto
  show ?thesis
  proof (cases "wait_for_flow e s m WAIT_READ 0 d1")
    case (Inl a)
    then obtain d2 v where w: "wait_for_flow e s m WAIT_READ 0 d1 = Inl (d2, v)"
      by (cases a) auto
    have c2: "cursor_inv (flow_pages d2 m' f)"
      using c1 pages_wait_inl [OF w, of m' f] by simp
    from assms l c w c1 c2 show ?thesis
      by (auto simp: dev_read_def Let_def split: if_splits dest: cursor_read_locked)
  next
    case (Inr d2)
    have c2: "cursor_inv (flow_pages d2 m' f)"
      using c1 pages_wait_inr [OF Inr, of m' f] by simp
    from assms l c Inr c1 c2 show ?thesis
      by (auto simp: dev_read_def Let_def split: if_splits dest: cursor_read_locked)
  qed
qed

lemma cursor_dev_ioctl:
  assumes "dev_ioctl e d s m c param = Some (d', s', r)" and "cursor_inv (flow_pages d m' f)"
  shows "cursor_inv (flow_pages d' m' f)"
proof -
  obtain d1 got where l: "try_get_lock (lock_wait e) s m d = (d1, got)"
    by (cases "try_get_lock (lock_wait e) s m d") auto
  have c1: "cursor_inv (flow_pages d1 m' f)" using pages_try_get_lock [OF l] assms(2) by simp
  have un: "\<And>x p. flow_pages (unlock_wake m p x) m' f = flow_pages x m' f"
    by (simp add: flow_pages_def sync_defs)
  have c2: "\<And>x. flow_pages (d1\<lparr>enable_disable_array := x\<rparr>) m' f = flow_pages d1 m' f"
    by (simp add: flow_pages_def)
  from assms(1) l c1 show ?thesis
    by (auto simp: dev_ioctl_def Let_def un c2 split: if_splits)
qed

lemma cursor_run_work:
  assumes "run_work e d = Some d'" and "cursor_inv (flow_pages d m' f)"
  shows "cursor_inv (flow_pages d' m' f)"
proof (cases "system_wq d")
  case Nil
  with assms show ?thesis by (simp add: run_work_def)
next
  case (Cons job rest)
  define d0 where "d0 = mutex_lock (wq_minor job) 0 (d\<lparr>system_wq := rest\<rparr>)"
  have p0: "cursor_inv (flow_pages d0 m' f)"
    using assms(2) by (auto simp: d0_def flow_pages_def sync_defs)
  from assms(1) Cons have dw: "do_wq_write e job (d\<lparr>system_wq := rest\<rparr>) = Some d'"
    by (simp add: run_work_def)
  then obtain d1 t where
    w: "write_data (page_alloc e) (wq_len job) (wq_minor job) (wq_data job) 0 d0 = Some (d1, t)"
    and d': "d' = unlock_wake (wq_minor job) 0
       ((upd_object (wq_minor job) (\<lambda>ob. ob\<lparr>valid_bytes :=
                         (valid_bytes ob)(0 := valid_bytes ob 0 + int (wq_len job))\<rparr>) d1)
         \<lparr>low_data_count := (low_data_count d1)(wq_minor job :=
             low_data_count d1 (wq_minor job) + ulong_of (int (wq_len job)))\<rparr>)"
    unfolding do_wq_write_def Let_def d0_def
    by (auto simp: upd_object_def split: if_splits option.splits)
  have l: "list_heads (objects d' m') = list_heads (objects d1 m')"
    unfolding d' by (simp add: sync_defs)
  from cursor_write_data [OF w p0] l show ?thesis by (simp add: flow_pages_def)
qed

lemma cursor_exec:
  "exec c d = Some d' \<Longrightarrow> cursor_inv (flow_pages d m f) \<Longrightarrow> cursor_inv (flow_pages d' m f)"
proof (cases c)
  case (Write e s m' buff len)
  assume "exec c d = Some d'" and "cursor_inv (flow_pages d m f)"
  with Write show ?thesis by (auto dest: cursor_dev_write)
next
  case (Read e s m' buff len)
  assume "exec c d = Some d'" and "cursor_inv (flow_pages d m f)"
  with Read show ?thesis by (auto dest: cursor_dev_read)
next
  case (Ioctl e s m' cmd param)
  assume "exec c d = Some d'" and "cursor_inv (flow_pages d m f)"
  with Ioctl show ?thesis by (auto dest: cursor_dev_ioctl)
next
  case (Work e)
  assume "exec c d = Some d'" and "cursor_inv (flow_pages d m f)"
  with Work show ?thesis by (auto dest: cursor_run_work)
qed (auto simp: dev_release_def)

lemma cursor_init: "cursor_inv (flow_pages init_module m f)"
  by (simp add: cursor_inv_def flow_pages_def init_module_def init_object_def new_page_def)

text \<open>
  C9: in every state of the device, for every minor and flow, no page of the list
  other than its head has a read cursor above 0, and no page of the list has its read
  cursor at the page size: a page whose cursor reaches \<^verbatim>\<open>OBJECT_MAX_SIZE\<close> is
  unlinked by the read that moved it there.
\<close>

theorem read_cursor_only_at_head:
  assumes "reachable d"
  shows "(\<forall>p\<in>set (tl (list_heads (objects d m) f)). \<not> 0 < read_offset p)
         \<and> (\<forall>p\<in>set (list_heads (objects d m) f). read_offset p \<noteq> OBJECT_MAX_SIZE)"
proof -
  from assms have "cursor_inv (flow_pages d m f)"
    by (induction rule: reachable.induct) (auto intro: cursor_init cursor_exec)
  then show ?thesis by (simp add: cursor_inv_def flow_pages_def)
qed

lemma hello_read_loop:
  "read_loop 2 [0, 0] 0 0 []
     [\<lparr>record_length = 5, read_offset = 0, stream_content = [104, 101, 108, 108, 111]\<rparr>]
   = Some ([104, 101], 2, 0,
       [\<lparr>record_length = 5, read_offset = 2, stream_content = [104, 101, 108, 108, 111]\<rparr>])"
  by (simp add: read_loop.simps memcpy_def)

lemma partly_read:
  "map_option fst (dev_read env_ok hello_device high_session 0 [0, 0] 2) = Some partly_read_device
   \<and> list_heads (objects partly_read_device 0) 1
      = [\<lparr>record_length = 5, read_offset = 2, stream_content = [104, 101, 108, 108, 111]\<rparr>]"
proof -
  have n: "replicate 2 (0::byte) = [0, 0]" by (simp add: numeral_eq_Suc)
  show ?thesis
    by (simp add: partly_read_device_def dev_read_def clear_user_def in_bounds_def
        high_session_def env_ok_def sync_defs dev_read_locked_def Let_def hello_device_eq
        init_module_def init_object_def kmalloc_def n hello_read_loop copy_to_user_def)
qed

theorem read_cursor_only_at_head_witness:
  "reachable partly_read_device
   \<and> map read_offset (list_heads (objects partly_read_device 0) 1) = [2]
   \<and> list_all (\<lambda>p. \<not> 0 < read_offset p) (tl (list_heads (objects partly_read_device 0) 1))
   \<and> list_all (\<lambda>p. read_offset p \<noteq> OBJECT_MAX_SIZE) (list_heads (objects partly_read_device 0) 1)"
proof -
  have "exec (Write env_ok high_session 0 [104, 101, 108, 108, 111] 5) init_module
        = Some hello_device"
    by (simp add: hello_device_def dev_write_def in_bounds_def high_session_def env_ok_def
        kmalloc_def copy_from_user_def sync_defs dev_write_locked_def dev_write_high_def
        write_data_def Let_def init_module_def init_object_def hello_write)
  then have h: "reachable hello_device"
    using reachable.init reachable.step by blast
  have "exec (Read env_ok high_session 0 [0, 0] 2) hello_device = Some partly_read_device"
    using partly_read by simp
  with h have r: "reachable partly_read_device"
    using reachable.step by blast
  show ?thesis
    using read_cursor_only_at_head [OF r, of 0 1] r partly_read
    by (simp add: list_all_iff)
qed

subsection \<open>Round trip through the high priority flow\<close>

text \<open>What \<^verbatim>\<open>write_data\<close> appends to a well formed list.\<close>

lemma log_bytes_simps [simp]:
  "log_bytes [] = []" "log_bytes (p # ps) = page_bytes p @ log_bytes ps"
  "log_bytes (a @ b) = log_bytes a @ log_bytes b"
  by (simp_all add: log_bytes_def)

lemma page_wf_new [simp]: "page_wf new_page" "page_bytes new_page = []"
  "record_length new_page = 0" "read_offset new_page = 0"
  by (simp_all add: page_wf_def page_ok_def new_page_def page_bytes_def)





































end
